theory Spec2Isabelle
  imports Complex_Main "HOL-Library.Sublist"
begin

section \<open>JavaScript strings\<close>

text \<open>
  A JavaScript string is a sequence of UTF-16 code units. It is modelled as the list of
  its code units, each a natural number; \<open>js\<close> turns an ASCII literal into such a
  list. \<open>isSpace\<close> is the white space of \<open>String.prototype.trim\<close>, which is
  also the regular expression class \<open>\s\<close>; \<open>isWord\<close> is the class \<open>\w\<close>;
  \<open>lowerAscii\<close> is the case folding under which the flag \<open>i\<close> compares an input
  code unit with an ASCII letter of a pattern.
\<close>

type_synonym jsstring = "nat list"

definition js :: "string \<Rightarrow> jsstring" where
  "js s = map of_char s"

definition nl :: jsstring where
  "nl = [10]"

definition isSpace :: "nat \<Rightarrow> bool" where
  "isSpace n =
     (n \<in> {9, 10, 11, 12, 13, 32, 160, 5760, 8232, 8233, 8239, 8287, 12288, 65279}
      \<or> (8192 \<le> n \<and> n \<le> 8202))"

definition isWord :: "nat \<Rightarrow> bool" where
  "isWord n = ((48 \<le> n \<and> n \<le> 57) \<or> (65 \<le> n \<and> n \<le> 90) \<or> n = 95 \<or> (97 \<le> n \<and> n \<le> 122))"

definition lowerAscii :: "nat \<Rightarrow> nat" where
  "lowerAscii n = (if 65 \<le> n \<and> n \<le> 90 then n + 32 else n)"

definition ciEq :: "jsstring \<Rightarrow> jsstring \<Rightarrow> bool" where
  "ciEq a b = (map lowerAscii a = map lowerAscii b)"

definition trimStart :: "jsstring \<Rightarrow> jsstring" where
  "trimStart s = dropWhile isSpace s"

definition trimEnd :: "jsstring \<Rightarrow> jsstring" where
  "trimEnd s = rev (dropWhile isSpace (rev s))"

definition trim :: "jsstring \<Rightarrow> jsstring" where
  "trim s = trimEnd (trimStart s)"

text \<open>\<open>hay.includes(needle)\<close>: the needle occurs as a contiguous run.\<close>

definition includesStr :: "jsstring \<Rightarrow> jsstring \<Rightarrow> bool" where
  "includesStr hay needle = sublist needle hay"

text \<open>\<open>parts.join(sep)\<close>.\<close>

fun join :: "jsstring \<Rightarrow> jsstring list \<Rightarrow> jsstring" where
  "join sep [] = []"
| "join sep [x] = x"
| "join sep (x # y # ys) = x @ sep @ join sep (y # ys)"

text \<open>The decimal numeral that a template literal prints for a natural number.\<close>

fun showNat :: "nat \<Rightarrow> jsstring" where
  "showNat n = (if n < 10 then [48 + n] else showNat (n div 10) @ [48 + n mod 10])"

declare showNat.simps [simp del]

section \<open>ChangeLog (sync/changeLog)\<close>

text \<open>
  \<^verbatim>\<open>type Change = { type: "edit"; summary } | { type: "type-change"; oldType; newType }\<close>.
  The private array \<open>changes\<close> is the state of a \<open>ChangeLog\<close>; every method is a
  function on it.
\<close>

datatype change = Edit jsstring | TypeChange jsstring jsstring

type_synonym changeLog = "change list"

text \<open>
  \<open>add\<close> looks at the last entry only: an edit after an edit overwrites it, a type
  change after a type change overwrites it with the earlier entry's \<open>oldType\<close>, and
  everything else is pushed.
\<close>

definition add :: "change \<Rightarrow> changeLog \<Rightarrow> changeLog" where
  "add c cs =
     (if cs = [] then cs @ [c]
      else (case (c, last cs) of
              (Edit s, Edit _) \<Rightarrow> butlast cs @ [c]
            | (TypeChange _ new, TypeChange old _) \<Rightarrow> butlast cs @ [TypeChange old new]
            | _ \<Rightarrow> cs @ [c]))"

fun serializeEntry :: "nat \<Rightarrow> change \<Rightarrow> jsstring" where
  "serializeEntry i (Edit s) = showNat (i + 1) @ js ''.'' @ js '' Edited diagram code: '' @ s"
| "serializeEntry i (TypeChange old new) =
     showNat (i + 1) @ js ''.'' @ js '' Changed diagram type from '' @ old @ js '' to '' @ new"

definition serialize :: "changeLog \<Rightarrow> jsstring" where
  "serialize cs =
     (if cs = [] then []
      else join nl (map (\<lambda>(i, c). serializeEntry i c) (enumerate 0 cs)))"

definition clear :: "changeLog \<Rightarrow> changeLog" where
  "clear cs = []"

definition count :: "changeLog \<Rightarrow> nat" where
  "count cs = length cs"

definition isEmpty :: "changeLog \<Rightarrow> bool" where
  "isEmpty cs = (cs = [])"

text \<open>Adding a whole sequence of entries to a log, in order.\<close>

definition addAll :: "change list \<Rightarrow> changeLog \<Rightarrow> changeLog" where
  "addAll es cs = foldl (\<lambda>acc e. add e acc) cs es"

text \<open>No two neighbours of a log carry the same tag.\<close>

fun sameTag :: "change \<Rightarrow> change \<Rightarrow> bool" where
  "sameTag (Edit _) (Edit _) = True"
| "sameTag (TypeChange _ _) (TypeChange _ _) = True"
| "sameTag _ _ = False"

fun coalesced :: "changeLog \<Rightarrow> bool" where
  "coalesced (x # y # ys) = (\<not> sameTag x y \<and> coalesced (y # ys))"
| "coalesced _ = True"

section \<open>Rendering engine (engine/render.ts)\<close>

text \<open>
  \<open>renderPlantUml\<close> is asynchronous: it rejects with an \<open>Error\<close> or resolves with
  the SVG text. Its result is \<open>Inl message\<close> for the rejection and \<open>Inr svg\<close> for
  the value. The encoder of the package \<open>plantuml-encoder\<close> and the network are its
  environment: \<open>encode\<close> is the encoder and \<open>fetch\<close> says what the server answers
  for a URL. The first component of the result lists the URLs that were requested.
\<close>

datatype fetchOutcome =
    NetworkFailure jsstring
  | Response bool nat jsstring "jsstring + jsstring"

definition PLANTUML_SERVER :: jsstring where
  "PLANTUML_SERVER = js ''https://www.plantuml.com/plantuml''"

definition renderPlantUml ::
  "(jsstring \<Rightarrow> jsstring) \<Rightarrow> (jsstring \<Rightarrow> fetchOutcome) \<Rightarrow> jsstring
   \<Rightarrow> jsstring list \<times> (jsstring + jsstring)" where
  "renderPlantUml encode fetch code =
     (if trim code = [] then ([], Inl (js ''Empty PlantUML code''))
      else
        (let encoded = encode code;
             url = PLANTUML_SERVER @ js ''/svg/'' @ encoded
         in (case fetch url of
               NetworkFailure msg \<Rightarrow> ([url], Inl msg)
             | Response ok status statusText body \<Rightarrow>
                 (if \<not> ok
                  then ([url], Inl (js ''PlantUML server error: '' @ showNat status
                                     @ js '' '' @ statusText))
                  else ([url], body)))))"

definition isSvgError :: "jsstring \<Rightarrow> bool" where
  "isSvgError svg =
     (includesStr svg (js ''Syntax Error'') \<or> includesStr svg (js ''ErrorURLDecoder'')
      \<or> includesStr svg (js ''[From string (line'') \<or> includesStr svg (js ''syntax is deprecated''))"

section \<open>Sync layer (sync/syncLayer.ts)\<close>

text \<open>
  The agent channel is the method \<open>sendMessage\<close> of the connected app: given the text it
  either returns or throws. \<open>sendToAgent\<close> works on the change log and returns the log
  as it leaves it, the texts it handed to \<open>sendMessage\<close>, and the exception that
  reaches its caller, if any.
\<close>

datatype callOutcome = Returned | Threw jsstring

record sendResult =
  logAfter :: changeLog
  handedOver :: "jsstring list"
  propagated :: "jsstring option"

definition sendToAgent ::
  "(jsstring \<Rightarrow> callOutcome) option \<Rightarrow> changeLog \<Rightarrow> jsstring \<Rightarrow> jsstring list \<Rightarrow> jsstring
   \<Rightarrow> sendResult" where
  "sendToAgent app changes plantUmlCode selectedElements diagramType =
     (case app of
        None \<Rightarrow> \<lparr>logAfter = changes, handedOver = [], propagated = None\<rparr>
      | Some sendMessage \<Rightarrow>
          (let delta = serialize changes;
               selectionText =
                 (if length selectedElements > 0 then join (js '', '') selectedElements
                  else js ''none'');
               parts = (if delta \<noteq> [] then [js ''User edited the diagram:'', delta] else [])
                       @ [js ''Currently selected: '' @ selectionText,
                          [],
                          js ''Full PlantUML code ('' @ diagramType @ js ''):'',
                          plantUmlCode];
               text = join nl parts;
               escaped = (case sendMessage text of Returned \<Rightarrow> None | Threw e \<Rightarrow> None)
           in \<lparr>logAfter = clear changes, handedOver = [text], propagated = escaped\<rparr>))"

section \<open>Viewport (components/DiagramView.tsx)\<close>

text \<open>
  The numbers of the viewport are JavaScript doubles; they are modelled as real numbers,
  so rounding, \<open>NaN\<close> and the infinities are left out. Where the old scale is 0 the
  quotient \<open>newScale / oldScale\<close> is infinite in JavaScript and 0 in HOL; it enters
  the pan only, never the scale. \<open>wrapper\<close> is the size of the wrapper element's
  bounding rectangle, or \<open>None\<close> when the element is not mounted; \<open>svgSize\<close> is
  the natural size read from the SVG, which is positive once an SVG has been read and
  \<open>(0, 0)\<close> before.
\<close>

record view =
  scale :: real
  panX :: real
  panY :: real

definition fitToView :: "(real \<times> real) option \<Rightarrow> real \<times> real \<Rightarrow> view \<Rightarrow> view" where
  "fitToView wrapper svgSize v =
     (case wrapper of
        None \<Rightarrow> v
      | Some (width, height) \<Rightarrow>
          (let (w, h) = svgSize in
           if w = 0 \<or> h = 0 then v
           else if width = 0 \<or> height = 0 then v
           else
             (let padding = 48;
                  fitScale = min (min ((width - padding) / w) ((height - padding) / h)) 1;
                  scaledW = w * fitScale;
                  scaledH = h * fitScale
              in \<lparr>scale = fitScale, panX = (width - scaledW) / 2, panY = (height - scaledH) / 2\<rparr>)))"

definition zoomFromCenter :: "(real \<times> real) option \<Rightarrow> real \<Rightarrow> view \<Rightarrow> view" where
  "zoomFromCenter wrapper factor v =
     (case wrapper of
        None \<Rightarrow> v
      | Some (width, height) \<Rightarrow>
          (let cx = width / 2;
               cy = height / 2;
               oldScale = scale v;
               newScale = max 0.05 (min 5 (oldScale * factor));
               ratio = newScale / oldScale
           in \<lparr>scale = newScale,
               panX = cx - (cx - panX v) * ratio,
               panY = cy - (cy - panY v) * ratio\<rparr>))"

definition handleWheel :: "real \<Rightarrow> real \<Rightarrow> real \<Rightarrow> view \<Rightarrow> view" where
  "handleWheel mouseX mouseY deltaY v =
     (let factor = (if deltaY > 0 then 0.9 else 1.1);
          oldScale = scale v;
          newScale = max 0.05 (min 5 (oldScale * factor));
          ratio = newScale / oldScale
      in \<lparr>scale = newScale,
          panX = mouseX - (mouseX - panX v) * ratio,
          panY = mouseY - (mouseY - panY v) * ratio\<rparr>)"

text \<open>The buttons of the zoom bar call \<open>zoomFromCenter\<close> with these two factors.\<close>

definition zoomOut :: "(real \<times> real) option \<Rightarrow> view \<Rightarrow> view" where
  "zoomOut wrapper v = zoomFromCenter wrapper 0.85 v"

definition zoomIn :: "(real \<times> real) option \<Rightarrow> view \<Rightarrow> view" where
  "zoomIn wrapper v = zoomFromCenter wrapper 1.15 v"

text \<open>The interval in which the zoom operations keep the scale.\<close>

definition inRange :: "view \<Rightarrow> bool" where
  "inRange v = (0.05 \<le> scale v \<and> scale v \<le> 5)"

section \<open>The application component (App.tsx)\<close>

subsection \<open>State\<close>

text \<open>
  The component's React state (\<open>useState\<close>) and references (\<open>useRef\<close>) are the
  fields of one record, together with what the component acts on: the pending timeouts
  of the event loop with the clock in milliseconds, the calls of \<open>doRender\<close> made so
  far, and the messages handed to \<open>sendMessage\<close>. \<open>selectionMode\<close> is the state
  of the diagram view, whose \<open>onSelectionChange\<close> is \<open>setSelectedElements\<close>.
  The write-only states \<open>diagramInput\<close> and \<open>partial\<close> are left out, and so are
  the display states (full screen, host height, view mode) and the timers of the silent
  sync and of the streaming interval, which touch none of the fields below; a render of
  the streaming interval is a call of \<open>doRender\<close> in streaming mode.
  \<open>renderVersion\<close> is a JavaScript number that starts at 0 and only ever grows by
  one; it is a natural number here.

  A timeout handle is a positive integer, so a stored handle is never falsy: the test
  \<^verbatim>\<open>if (renderTimer.current)\<close> is the test that the reference is not \<open>null\<close>.
\<close>

datatype callback =
    RenderTimeout jsstring
  | ErrorFixTimeout jsstring jsstring

record timeout =
  handle :: nat
  due :: nat
  callback :: callback

text \<open>
  What a call of \<open>doRender\<close> keeps in its closure while it awaits the backend: the
  version it allocated, its two arguments, and the text it sent.
\<close>

record pendingRender =
  version :: nat
  isStreaming :: bool
  code :: jsstring
  renderCode :: jsstring

record app =
  plantUmlCode :: jsstring
  streaming :: bool
  selectedElements :: "jsstring list"
  selectionMode :: bool
  svgContent :: "jsstring option"
  renderLoading :: bool
  renderError :: "jsstring option"
  renderVersion :: nat
  renderTimer :: "nat option"
  errorAlreadySent :: "jsstring option"
  errorFixTimer :: "nat option"
  isToolInputError :: bool
  changeLog :: changeLog
  changeCount :: nat
  appRef :: bool
  clock :: nat
  timeouts :: "timeout list"
  timerCount :: nat
  renders :: "pendingRender list"
  sentMessages :: "jsstring list"

subsection \<open>Timers\<close>

definition clearTimeout :: "nat \<Rightarrow> app \<Rightarrow> app" where
  "clearTimeout h s = s\<lparr>timeouts := filter (\<lambda>x. handle x \<noteq> h) (timeouts s)\<rparr>"

definition setTimeout :: "callback \<Rightarrow> nat \<Rightarrow> app \<Rightarrow> nat \<times> app" where
  "setTimeout cb delay s =
     (let h = timerCount s + 1
      in (h, s\<lparr>timeouts := timeouts s @ [\<lparr>handle = h, due = clock s + delay, callback = cb\<rparr>],
               timerCount := h\<rparr>))"

subsection \<open>doRender\<close>

text \<open>
  The test \<^verbatim>\<open>/@end(uml|ditaa|salt|gantt|mindmap|wbs|json|yaml|nwdiag|regex)\s*$/i\<close>:
  some marker is followed by white space only up to the end of the text, that is, the text
  without its trailing white space ends with the marker, letters compared without case.
\<close>

definition endKinds :: "jsstring list" where
  "endKinds = map js [''uml'', ''ditaa'', ''salt'', ''gantt'', ''mindmap'', ''wbs'', ''json'',
                      ''yaml'', ''nwdiag'', ''regex'']"

definition closingMarker :: "jsstring \<Rightarrow> bool" where
  "closingMarker t =
     (let body = trimEnd t
      in list_ex (\<lambda>kind. let m = js ''@end'' @ kind
                          in length m \<le> length body
                             \<and> ciEq (drop (length body - length m) body) m) endKinds)"

text \<open>
  The first match of \<^verbatim>\<open>/@start(\w+)/i\<close>: the leftmost position where \<open>@start\<close>
  is followed by a word character; the group is the longest run of word characters there.
\<close>

fun startMatch :: "jsstring \<Rightarrow> jsstring option" where
  "startMatch [] = None"
| "startMatch (c # cs) =
     (if ciEq (take 6 (c # cs)) (js ''@start'') \<and> takeWhile isWord (drop 6 (c # cs)) \<noteq> []
      then Some (takeWhile isWord (drop 6 (c # cs)))
      else startMatch cs)"

definition repair :: "jsstring \<Rightarrow> jsstring" where
  "repair c =
     (let trimmed = trimEnd c
      in if \<not> closingMarker trimmed
         then (let endTag = (case startMatch trimmed of
                               Some kind \<Rightarrow> js ''@end'' @ kind
                             | None \<Rightarrow> js ''@enduml'')
               in trimmed @ nl @ endTag)
         else c)"

text \<open>
  \<open>doRender\<close> runs in two steps with the backend call between them.
  \<open>doRenderStart\<close> is the part before the \<open>await\<close>; \<open>newRender\<close> is the closure it
  leaves behind. \<open>doRenderFinish\<close> is the part after the \<open>await\<close>, run when the
  promise of \<open>renderPlantUml\<close> settles with \<open>result\<close>.
\<close>

definition newRender :: "jsstring \<Rightarrow> bool \<Rightarrow> app \<Rightarrow> pendingRender" where
  "newRender c streamingMode s =
     \<lparr>version = renderVersion s + 1, isStreaming = streamingMode, code = c,
      renderCode = (if streamingMode then repair c else c)\<rparr>"

definition doRenderStart :: "jsstring \<Rightarrow> bool \<Rightarrow> app \<Rightarrow> app" where
  "doRenderStart c streamingMode s =
     (let p = newRender c streamingMode s;
          s1 = s\<lparr>renderVersion := version p, renders := renders s @ [p]\<rparr>
      in if \<not> streamingMode then s1\<lparr>renderLoading := True, renderError := None\<rparr> else s1)"

definition syntaxErrorMsg :: jsstring where
  "syntaxErrorMsg = js ''PlantUML syntax error '' @ [8212] @ js '' the diagram SVG shows an error''"

definition scheduleErrorAutoFix :: "jsstring \<Rightarrow> jsstring \<Rightarrow> app \<Rightarrow> app" where
  "scheduleErrorAutoFix errorMsg c s =
     (let s1 = (case errorFixTimer s of None \<Rightarrow> s | Some h \<Rightarrow> clearTimeout h s);
          (h, s2) = setTimeout (ErrorFixTimeout errorMsg c) 3000 s1
      in s2\<lparr>errorFixTimer := Some h\<rparr>)"

definition errorKey :: "jsstring \<Rightarrow> jsstring \<Rightarrow> jsstring" where
  "errorKey errorMsg c = errorMsg @ js ''::'' @ take 200 c"

definition fixRequest :: "jsstring \<Rightarrow> jsstring \<Rightarrow> jsstring" where
  "fixRequest errorMsg c =
     js ''The PlantUML diagram has errors. Please fix and regenerate.'' @ nl @ nl
     @ js ''Error: '' @ errorMsg @ nl @ nl
     @ js ''Current code:'' @ nl @ js ''```plantuml'' @ nl @ c @ nl @ js ''```''"

text \<open>The callback of the timeout that \<open>scheduleErrorAutoFix\<close> sets.\<close>

definition errorFixCallback :: "jsstring \<Rightarrow> jsstring \<Rightarrow> app \<Rightarrow> app" where
  "errorFixCallback errorMsg c s =
     (if \<not> appRef s then s
      else if \<not> isToolInputError s then s
      else if errorAlreadySent s = Some (errorKey errorMsg c) then s
      else s\<lparr>errorAlreadySent := Some (errorKey errorMsg c),
             sentMessages := sentMessages s @ [fixRequest errorMsg c]\<rparr>)"

definition finallyBlock :: "pendingRender \<Rightarrow> app \<Rightarrow> app" where
  "finallyBlock p s =
     (if version p = renderVersion s \<and> \<not> isStreaming p then s\<lparr>renderLoading := False\<rparr> else s)"

definition doRenderFinish :: "pendingRender \<Rightarrow> jsstring + jsstring \<Rightarrow> app \<Rightarrow> app" where
  "doRenderFinish p result s =
     (case result of
        Inr svg \<Rightarrow>
          (if version p \<noteq> renderVersion s then finallyBlock p s
           else if isStreaming p
           then finallyBlock p
                  (if \<not> isSvgError svg then s\<lparr>svgContent := Some svg, renderError := None\<rparr>
                   else s)
           else finallyBlock p
                  (let s1 = s\<lparr>svgContent := Some svg\<rparr>
                   in if isSvgError svg
                      then scheduleErrorAutoFix syntaxErrorMsg (code p)
                             (s1\<lparr>renderError := Some (js ''PlantUML syntax error'')\<rparr>)
                      else s1\<lparr>renderError := None, errorAlreadySent := None\<rparr>))
      | Inl msg \<Rightarrow>
          (if version p \<noteq> renderVersion s then finallyBlock p s
           else finallyBlock p (if \<not> isStreaming p then s\<lparr>renderError := Some msg\<rparr> else s)))"

text \<open>
  What the component treats as a failed render: the backend call failed, or the SVG that
  came back shows an error by the test of \<open>isSvgError\<close>.
\<close>

definition errorBearing :: "jsstring + jsstring \<Rightarrow> bool" where
  "errorBearing r = (case r of Inl msg \<Rightarrow> True | Inr svg \<Rightarrow> isSvgError svg)"

text \<open>
  The whole of \<open>doRender\<close> when nothing else happens while it awaits the backend.
\<close>

definition doRender ::
  "(jsstring \<Rightarrow> jsstring) \<Rightarrow> (jsstring \<Rightarrow> fetchOutcome) \<Rightarrow> jsstring \<Rightarrow> bool \<Rightarrow> app \<Rightarrow> app" where
  "doRender encode fetch c streamingMode s =
     (let p = newRender c streamingMode s
      in doRenderFinish p (snd (renderPlantUml encode fetch (renderCode p)))
           (doRenderStart c streamingMode s))"

subsection \<open>Debounced rendering\<close>

definition scheduleRender :: "jsstring \<Rightarrow> app \<Rightarrow> app" where
  "scheduleRender c s =
     (let s1 = (case renderTimer s of None \<Rightarrow> s | Some h \<Rightarrow> clearTimeout h s);
          (h, s2) = setTimeout (RenderTimeout c) 800 s1
      in s2\<lparr>renderTimer := Some h\<rparr>)"

text \<open>
  The effect with the dependencies \<open>[plantUmlCode, scheduleRender]\<close>: its body and the
  cleanup it returns. React runs the cleanup of the previous run and then the body each
  time \<open>plantUmlCode\<close> has changed; \<open>onDocumentChanged\<close> is such a change to the
  text \<open>c\<close>.
\<close>

definition codeEffect :: "app \<Rightarrow> app" where
  "codeEffect s = (if trim (plantUmlCode s) \<noteq> [] then scheduleRender (plantUmlCode s) s else s)"

definition codeEffectCleanup :: "app \<Rightarrow> app" where
  "codeEffectCleanup s = (case renderTimer s of None \<Rightarrow> s | Some h \<Rightarrow> clearTimeout h s)"

definition onDocumentChanged :: "jsstring \<Rightarrow> app \<Rightarrow> app" where
  "onDocumentChanged c s = codeEffect (codeEffectCleanup (s\<lparr>plantUmlCode := c\<rparr>))"

subsection \<open>The event loop\<close>

text \<open>
  \<open>fire\<close> runs the callback of a timeout. \<open>advance t\<close> lets the time pass up to
  \<open>t\<close>: the timeouts due by then leave the queue and fire in the order of their due
  times, those with equal due time in the order they were set. No callback sets or clears
  a timeout, so taking them out of the queue together is taking them out one by one.
\<close>

fun fire :: "callback \<Rightarrow> app \<Rightarrow> app" where
  "fire (RenderTimeout c) s = doRenderStart c False s"
| "fire (ErrorFixTimeout errorMsg c) s = errorFixCallback errorMsg c s"

definition advance :: "nat \<Rightarrow> app \<Rightarrow> app" where
  "advance t s =
     (let ready = sort_key due (filter (\<lambda>x. due x \<le> t) (timeouts s));
          s1 = s\<lparr>timeouts := filter (\<lambda>x. \<not> due x \<le> t) (timeouts s)\<rparr>;
          s2 = foldl (\<lambda>st x. fire (callback x) (st\<lparr>clock := max (clock st) (due x)\<rparr>)) s1 ready
      in s2\<lparr>clock := max (clock s2) t\<rparr>)"

subsection \<open>Handlers\<close>

definition handleCodeChange :: "jsstring \<Rightarrow> app \<Rightarrow> app" where
  "handleCodeChange newCode s =
     (let changes = add (Edit (js ''manual code edit'')) (changeLog s)
      in s\<lparr>plantUmlCode := newCode, isToolInputError := False,
            changeLog := changes, changeCount := count changes\<rparr>)"

text \<open>
  \<open>ontoolinput\<close> and \<open>ontoolinputpartial\<close> receive the argument \<open>plantUmlCode\<close> of
  the tool call, which may be missing.
\<close>

definition ontoolinput :: "jsstring option \<Rightarrow> app \<Rightarrow> app" where
  "ontoolinput arg s =
     (let c = (case arg of None \<Rightarrow> [] | Some a \<Rightarrow> a)
      in s\<lparr>isToolInputError := True, plantUmlCode := c, streaming := False,
            changeLog := clear (changeLog s), changeCount := 0\<rparr>)"


text \<open>\<open>toggleSelectionMode\<close> of the diagram view, with \<open>onSelectionChange([])\<close> on exit.\<close>

definition toggleSelectionMode :: "app \<Rightarrow> app" where
  "toggleSelectionMode s =
     (if selectionMode s then s\<lparr>selectedElements := [], selectionMode := False\<rparr>
      else s\<lparr>selectionMode := True\<rparr>)"

definition handleSendToAgent :: "(jsstring \<Rightarrow> callOutcome) option \<Rightarrow> jsstring \<Rightarrow> app \<Rightarrow> app" where
  "handleSendToAgent channel detectedType s =
     (let r = sendToAgent channel (changeLog s) (plantUmlCode s) (selectedElements s) detectedType
      in s\<lparr>changeLog := logAfter r, sentMessages := sentMessages s @ handedOver r,
            changeCount := 0\<rparr>)"

subsection \<open>Runs\<close>




text \<open>
  A burst of edits while no streaming session is active: each entry is the time of a
  change of the document and its new text. \<open>editsAt\<close> lets the time pass up to each
  change and applies it; \<open>burst\<close> then waits until the time \<open>final\<close>. The effect
  of the streaming flag, which renders on entry and every 2000 ms while \<open>streaming\<close>
  is true and has no interval otherwise, is not part of these runs: they describe the
  component only from a state where \<open>streaming\<close> is false, and none of their steps
  raises the flag.
\<close>

fun editsAt :: "(nat \<times> jsstring) list \<Rightarrow> app \<Rightarrow> app" where
  "editsAt [] s = s"
| "editsAt ((t, c) # es) s = editsAt es (onDocumentChanged c (advance t s))"

definition burst :: "(nat \<times> jsstring) list \<Rightarrow> nat \<Rightarrow> app \<Rightarrow> app" where
  "burst es final s = advance final (editsAt es s)"

text \<open>Consecutive edits are less than 800 ms apart, in the order of time.\<close>

fun rapid :: "(nat \<times> jsstring) list \<Rightarrow> bool" where
  "rapid ((t, c) # (t', c') # es) = (t \<le> t' \<and> t' < t + 800 \<and> rapid ((t', c') # es))"
| "rapid _ = True"

subsection \<open>Openers in a text\<close>

text \<open>
  \<open>openerAt t i\<close>: at position \<open>i\<close> of \<open>t\<close> stands \<open>@start\<close>, in any case of
  its letters, followed by a word character. \<open>firstOpener t i kind\<close>: \<open>i\<close> is the
  leftmost such position and \<open>kind\<close> is the run of word characters after \<open>@start\<close>
  there.
\<close>

definition openerAt :: "jsstring \<Rightarrow> nat \<Rightarrow> bool" where
  "openerAt t i =
     (ciEq (take 6 (drop i t)) (js ''@start'') \<and> takeWhile isWord (drop 6 (drop i t)) \<noteq> [])"

definition firstOpener :: "jsstring \<Rightarrow> nat \<Rightarrow> jsstring \<Rightarrow> bool" where
  "firstOpener t i kind =
     (openerAt t i \<and> (\<forall>j<i. \<not> openerAt t j) \<and> kind = takeWhile isWord (drop 6 (drop i t)))"

subsection \<open>The state at mount\<close>

definition SAMPLE_PLANTUML :: jsstring where
  \<open>SAMPLE_PLANTUML = join nl (map js
     [''@startuml'',
      ''actor User'',
      ''participant "Web App" as App'',
      ''participant "API Server" as API'',
      ''database "Database" as DB'',
      [],
      ''User -> App : Open page'',
      ''activate App'',
      [],
      ''App -> API : GET /data'',
      ''activate API'',
      [],
      ''API -> DB : SELECT query'',
      ''activate DB'',
      ''DB --> API : Result set'',
      ''deactivate DB'',
      [],
      ''API --> App : JSON response'',
      ''deactivate API'',
      [],
      ''App --> User : Render page'',
      ''deactivate App'',
      ''@enduml''])\<close>

text \<open>
  The initial values of the states and references, with the app reference set as the
  mount effect sets it, at time 0 with no timeout pending.
\<close>

definition initialApp :: app where
  "initialApp =
     \<lparr>plantUmlCode = SAMPLE_PLANTUML, streaming = False, selectedElements = [],
      selectionMode = False, svgContent = None, renderLoading = False, renderError = None,
      renderVersion = 0, renderTimer = None, errorAlreadySent = None, errorFixTimer = None,
      isToolInputError = False, changeLog = [], changeCount = 0, appRef = True, clock = 0,
      timeouts = [], timerCount = 0, renders = [], sentMessages = []\<rparr>"

subsection \<open>Auxiliary notions for the timers\<close>

text \<open>
  \<open>renderTimeouts s\<close> are the pending timeouts that \<open>scheduleRender\<close> has set.
  \<open>firing s xs\<close> fires the timeouts \<open>xs\<close> in their order, as \<open>advance\<close> does
  with the timeouts that are due.
\<close>

definition isRenderTimeout :: "timeout \<Rightarrow> bool" where
  "isRenderTimeout x = (case callback x of RenderTimeout c \<Rightarrow> True | ErrorFixTimeout m c \<Rightarrow> False)"

definition renderTimeouts :: "app \<Rightarrow> timeout list" where
  "renderTimeouts s = filter isRenderTimeout (timeouts s)"

definition firing :: "app \<Rightarrow> timeout list \<Rightarrow> app" where
  "firing s xs = foldl (\<lambda>st x. fire (callback x) (st\<lparr>clock := max (clock st) (due x)\<rparr>)) s xs"

text \<open>
  \<open>noOtherTimeout s\<close>: clearing the timeout of \<open>errorFixTimer\<close> leaves no timeout
  pending. \<open>debouncing s t c u\<close>: \<open>u\<close> is the state right after the document
  changed to \<open>c\<close> at time \<open>t\<close>, with no render issued since \<open>s\<close>: the only
  render timeout pending is the one of \<open>scheduleRender\<close> for \<open>c\<close>, and there is none
  when \<open>c\<close> is blank.
\<close>

definition noOtherTimeout :: "app \<Rightarrow> bool" where
  "noOtherTimeout s =
     ((case errorFixTimer s of None \<Rightarrow> timeouts s
       | Some h \<Rightarrow> filter (\<lambda>x. handle x \<noteq> h) (timeouts s)) = [])"

definition debouncing :: "app \<Rightarrow> nat \<Rightarrow> jsstring \<Rightarrow> app \<Rightarrow> bool" where
  "debouncing s t c u =
     (clock u = t \<and> renders u = renders s \<and> renderVersion u = renderVersion s
      \<and> renderTimeouts u = (if trim c \<noteq> []
                       then [\<lparr>handle = timerCount u, due = t + 800, callback = RenderTimeout c\<rparr>]
                       else [])
      \<and> (trim c \<noteq> [] \<longrightarrow> renderTimer u = Some (timerCount u)))"

text \<open>
  A backend that answers every request with the same SVG, and two answers: one that
  shows a syntax error and one that does not.
\<close>

definition answering :: "jsstring \<Rightarrow> jsstring \<Rightarrow> fetchOutcome" where
  "answering svg url = Response True 200 (js ''OK'') (Inr svg)"

definition brokenSvg :: jsstring where
  "brokenSvg = js ''<svg><text>Syntax Error?</text></svg>''"

definition validSvg :: jsstring where
  "validSvg = js ''<svg><text>Alice</text></svg>''"

section \<open>Properties of the change log\<close>

lemma add_Nil: "add c [] = [c]"
  by (simp add: add_def)

lemma add_snoc_other: "\<not> sameTag x c \<Longrightarrow> add c (cs @ [x]) = cs @ [x, c]"
  by (cases c; cases x) (simp_all add: add_def)

lemma coalesced_snoc:
  "coalesced (xs @ [x]) = (coalesced xs \<and> (xs = [] \<or> \<not> sameTag (last xs) x))"
  by (induction xs rule: coalesced.induct) auto

text \<open>A log that \<open>add\<close> has built never holds two neighbours of the same tag.\<close>

lemma coalesced_add: "coalesced cs \<Longrightarrow> coalesced (add c cs)"
proof (cases cs rule: rev_cases)
  case Nil
  then show ?thesis by (simp add: add_Nil)
next
  case (snoc ys y)
  assume co: "coalesced cs"
  show ?thesis
  proof (cases "sameTag y c")
    case False
    then have "add c cs = ys @ [y, c]" using snoc by (simp add: add_snoc_other)
    moreover have "coalesced ((ys @ [y]) @ [c])"
      using co snoc False by (subst coalesced_snoc) simp
    ultimately show ?thesis by simp
  next
    case True
    then obtain z where z: "add c cs = ys @ [z]" "sameTag y z"
      using snoc by (cases c; cases y) (simp_all add: add_def)
    have "coalesced ys \<and> (ys = [] \<or> \<not> sameTag (last ys) y)"
      using co snoc by (simp add: coalesced_snoc)
    moreover have "sameTag (last ys) z = sameTag (last ys) y"
      using z(2) by (cases "last ys"; cases y; cases z) simp_all
    ultimately show ?thesis using z(1) by (simp add: coalesced_snoc)
  qed
qed

lemma coalesced_addAll: "coalesced cs \<Longrightarrow> coalesced (addAll es cs)"
  unfolding addAll_def by (induction es arbitrary: cs) (simp_all add: coalesced_add)

lemma showNat_one: "showNat (Suc 0) = [49]"
  by (simp add: showNat.simps)

text \<open>
  Claim C5. \<open>add\<close> coalesces neighbours of the same tag: an edit added right after an
  edit takes its place, so that only the latest summary stays; a type change added right
  after a type change takes its place and keeps the earlier entry's old type. Adding
  sequence\<open>\<rightarrow>\<close>class and then class\<open>\<rightarrow>\<close>state to the empty log gives a log that
  serializes to "1. Changed diagram type from sequence to state", and three edits in a
  row serialize like the last one alone.
\<close>

theorem changeLog_add_coalesces:
  "add (Edit s2) (cs @ [Edit s1]) = cs @ [Edit s2]
   \<and> add (TypeChange old2 new2) (cs @ [TypeChange old1 new1]) = cs @ [TypeChange old1 new2]
   \<and> serialize (addAll [TypeChange (js ''sequence'') (js ''class''),
                          TypeChange (js ''class'') (js ''state'')] [])
       = js ''1. Changed diagram type from sequence to state''
   \<and> serialize (addAll [Edit (js ''a''), Edit (js ''b''), Edit (js ''c'')] [])
       = js ''1. Edited diagram code: c''"
  by (simp add: addAll_def add_def serialize_def enumerate_eq_zip showNat_one js_def)

section \<open>Properties of the rendering engine\<close>

lemma trim_empty_iff: "trim s = [] \<longleftrightarrow> (\<forall>c \<in> set s. isSpace c)"
proof -
  have "trim s = [] \<longleftrightarrow> dropWhile isSpace (rev (dropWhile isSpace s)) = []"
    by (simp add: trim_def trimEnd_def trimStart_def)
  also have "\<dots> \<longleftrightarrow> (\<forall>c \<in> set (dropWhile isSpace s). isSpace c)"
    by (simp add: dropWhile_eq_Nil_conv)
  also have "\<dots> \<longleftrightarrow> (\<forall>c \<in> set s. isSpace c)"
  proof
    assume a: "\<forall>c \<in> set (dropWhile isSpace s). isSpace c"
    have "dropWhile isSpace s = []"
    proof (rule ccontr)
      assume ne: "dropWhile isSpace s \<noteq> []"
      then have "\<not> isSpace (hd (dropWhile isSpace s))" by (rule hd_dropWhile)
      moreover have "hd (dropWhile isSpace s) \<in> set (dropWhile isSpace s)"
        using ne by simp
      ultimately show False using a by blast
    qed
    then show "\<forall>c \<in> set s. isSpace c" by (simp add: dropWhile_eq_Nil_conv)
  next
    assume "\<forall>c \<in> set s. isSpace c"
    then show "\<forall>c \<in> set (dropWhile isSpace s). isSpace c"
      using set_dropWhileD by fastforce
  qed
  finally show ?thesis .
qed

lemma brokenSvg_error: "isSvgError brokenSvg"
  by code_simp

lemma validSvg_ok: "\<not> isSvgError validSvg"
  by code_simp

text \<open>
  Claim C10. For every text whose trimmed form is empty, \<open>renderPlantUml\<close> rejects with
  the message "Empty PlantUML code" and has requested no URL from the backend; it does
  not resolve with an SVG.
\<close>

theorem renderPlantUml_empty_rejects:
  "trim c = [] \<Longrightarrow>
     renderPlantUml encode fetch c = ([], Inl (js ''Empty PlantUML code''))
     \<and> (\<forall>svg. snd (renderPlantUml encode fetch c) \<noteq> Inr svg)"
  by (simp add: renderPlantUml_def)

theorem renderPlantUml_empty_rejects_witness:
  "trim (js ''  '' @ nl) = []
   \<and> renderPlantUml (\<lambda>x. x) (\<lambda>u. Response True 200 (js ''OK'') (Inr (js ''<svg/>'')))
        (js ''  '' @ nl)
       = ([], Inl (js ''Empty PlantUML code''))"
proof -
  have h: "trim (js ''  '' @ nl) = []"
    by (simp add: trim_def trimEnd_def trimStart_def js_def nl_def isSpace_def)
  show ?thesis
    using h renderPlantUml_empty_rejects
              [OF h, of "\<lambda>x. x" "\<lambda>u. Response True 200 (js ''OK'') (Inr (js ''<svg/>''))"]
    by simp
qed

section \<open>Properties of the sync layer\<close>

lemma swallowed:
  "(case r of Returned \<Rightarrow> None | Threw e \<Rightarrow> None) = (None :: jsstring option)"
  by (cases r) simp_all

text \<open>
  Claim C9. After \<open>sendToAgent\<close> with a connected app the change log is empty, whether
  \<open>sendMessage\<close> returned or threw: no exception reaches the caller, the text was
  handed over once, and the log of the component is empty afterwards.
\<close>

theorem sendToAgent_clears_log:
  "isEmpty (logAfter (sendToAgent (Some sendMessage) changes c sel dt))
   \<and> propagated (sendToAgent (Some sendMessage) changes c sel dt) = None
   \<and> length (handedOver (sendToAgent (Some sendMessage) changes c sel dt)) = 1
   \<and> changeLog (handleSendToAgent (Some sendMessage) dt s) = []"
  by (simp add: sendToAgent_def handleSendToAgent_def isEmpty_def clear_def Let_def swallowed)

section \<open>Properties of the viewport\<close>

lemma handleWheel_inRange: "inRange (handleWheel mx my dy v)"
  by (simp add: handleWheel_def inRange_def Let_def)

lemma zoomFromCenter_inRange: "inRange (zoomFromCenter (Some wr) f v)"
  by (cases wr) (simp add: zoomFromCenter_def inRange_def Let_def)

lemma zoomFromCenter_keeps: "inRange v \<Longrightarrow> inRange (zoomFromCenter wrapper f v)"
  by (cases wrapper) (simp_all add: zoomFromCenter_inRange, simp add: zoomFromCenter_def)

lemma fitToView_scale:
  assumes "0 < w" "0 < h" "W \<noteq> 0" "H \<noteq> 0"
  shows "scale (fitToView (Some (W, H)) (w, h) v) = min (min ((W - 48) / w) ((H - 48) / h)) 1"
  using assms by (simp add: fitToView_def Let_def)

lemma fit_lower_iff:
  assumes "0 < w" "0 < h"
  shows "(0.05 \<le> min (min ((W - 48) / w) ((H - 48) / h)) (1::real))
         \<longleftrightarrow> (0.05 * w \<le> W - 48 \<and> 0.05 * h \<le> H - 48)"
  using assms by (simp add: pos_le_divide_eq)

lemma fitToView_upper: "scale v \<le> 5 \<Longrightarrow> scale (fitToView wrapper sz v) \<le> 5"
  by (cases sz; cases wrapper) (auto simp: fitToView_def Let_def)

text \<open>
  Claim C7, as the code has it. Wheel zoom and the zoom-in and zoom-out buttons leave the
  scale in the interval from 0.05 to 5, whatever it was before. Fit-to-view of a diagram
  of natural size \<open>w \<times> h\<close> in a viewport of size \<open>W \<times> H\<close> sets the scale to
  \<open>min ((W - 48) / w) ((H - 48) / h) 1\<close>: it is at most 1 and has no lower clamp, so it
  lies in the interval exactly when \<open>0.05 * w \<le> W - 48\<close> and \<open>0.05 * h \<le> H - 48\<close>.
\<close>

theorem viewport_scale_after_operation:
  "0 < w \<Longrightarrow> 0 < h \<Longrightarrow> W \<noteq> 0 \<Longrightarrow> H \<noteq> 0 \<Longrightarrow>
     inRange (handleWheel mx my dy v)
     \<and> inRange (zoomIn (Some wr) v) \<and> inRange (zoomOut (Some wr) v)
     \<and> (inRange v \<longrightarrow> inRange (zoomFromCenter wrapper f v))
     \<and> scale (fitToView (Some (W, H)) (w, h) v) = min (min ((W - 48) / w) ((H - 48) / h)) 1
     \<and> scale (fitToView (Some (W, H)) (w, h) v) \<le> 1
     \<and> (inRange (fitToView (Some (W, H)) (w, h) v)
          \<longleftrightarrow> 0.05 * w \<le> W - 48 \<and> 0.05 * h \<le> H - 48)"
proof -
  assume a: "0 < w" "0 < h" "W \<noteq> 0" "H \<noteq> 0"
  have sc: "scale (fitToView (Some (W, H)) (w, h) v) = min (min ((W - 48) / w) ((H - 48) / h)) 1"
    using a by (rule fitToView_scale)
  have low: "inRange (fitToView (Some (W, H)) (w, h) v)
          \<longleftrightarrow> 0.05 * w \<le> W - 48 \<and> 0.05 * h \<le> H - 48"
  proof -
    have "min (min ((W - 48) / w) ((H - 48) / h)) 1 \<le> (5::real)" by linarith
    then show ?thesis
      unfolding inRange_def sc using fit_lower_iff [OF a(1) a(2), of W H] by blast
  qed
  have up: "scale (fitToView (Some (W, H)) (w, h) v) \<le> 1"
    unfolding sc by linarith
  show ?thesis
    using sc low up
    by (simp add: handleWheel_inRange zoomIn_def zoomOut_def zoomFromCenter_inRange
        zoomFromCenter_keeps)
qed

theorem viewport_scale_after_operation_witness:
  "(0::real) < 800 \<and> (0::real) < 600 \<and> (400::real) \<noteq> 0
   \<and> scale (fitToView (Some (400, 400)) (800, 600) \<lparr>scale = 1, panX = 0, panY = 0\<rparr>) = 11 / 25
   \<and> inRange (fitToView (Some (400, 400)) (800, 600) \<lparr>scale = 1, panX = 0, panY = 0\<rparr>)
   \<and> inRange (handleWheel 10 10 (-1) \<lparr>scale = 5, panX = 0, panY = 0\<rparr>)"
  using viewport_scale_after_operation
          [of 800 600 400 400 10 10 "-1" "\<lparr>scale = 5, panX = 0, panY = 0\<rparr>"
              "(400, 400)" None 1]
        viewport_scale_after_operation
          [of 800 600 400 400 10 10 "-1" "\<lparr>scale = 1, panX = 0, panY = 0\<rparr>"
              "(400, 400)" None 1]
  by simp

text \<open>
  The claim as stated fails for fit-to-view: a diagram 8000 wide in a viewport of
  400 by 400 is fitted at the scale 0.044, below 0.05, from a state whose scale is 1.
\<close>

theorem fitToView_leaves_range_counterexample:
  "inRange \<lparr>scale = 1, panX = 0, panY = 0\<rparr>
   \<and> \<not> inRange (fitToView (Some (400, 400)) (8000, 600) \<lparr>scale = 1, panX = 0, panY = 0\<rparr>)"
  by (simp add: inRange_def fitToView_def Let_def)

section \<open>Properties of the streaming repair\<close>

lemma openerAt_Nil: "\<not> openerAt [] i"
  by (simp add: openerAt_def ciEq_def js_def)

lemma openerAt_Cons_Suc: "openerAt (c # cs) (Suc i) = openerAt cs i"
  by (simp add: openerAt_def)

lemma startMatch_Cons:
  "startMatch (c # cs) =
     (if openerAt (c # cs) 0 then Some (takeWhile isWord (drop 6 (c # cs))) else startMatch cs)"
  by (simp add: openerAt_def)

lemma startMatch_None_iff: "startMatch t = None \<longleftrightarrow> (\<forall>i. \<not> openerAt t i)"
proof (induction t)
  case Nil
  then show ?case by (simp add: openerAt_Nil)
next
  case (Cons c cs)
  show ?case
  proof (cases "openerAt (c # cs) 0")
    case True
    then show ?thesis by (auto simp: startMatch_Cons simp del: startMatch.simps)
  next
    case False
    have "(\<forall>i. \<not> openerAt (c # cs) i) \<longleftrightarrow> (\<forall>i. \<not> openerAt cs i)"
    proof
      assume a: "\<forall>i. \<not> openerAt (c # cs) i"
      show "\<forall>i. \<not> openerAt cs i"
      proof
        fix i show "\<not> openerAt cs i" using a [rule_format, of "Suc i"]
          by (simp add: openerAt_Cons_Suc)
      qed
    next
      assume a: "\<forall>i. \<not> openerAt cs i"
      show "\<forall>i. \<not> openerAt (c # cs) i"
      proof
        fix i show "\<not> openerAt (c # cs) i"
          using a False by (cases i) (simp_all add: openerAt_Cons_Suc)
      qed
    qed
    then show ?thesis using False Cons.IH
      by (simp add: startMatch_Cons del: startMatch.simps)
  qed
qed

lemma startMatch_firstOpener: "firstOpener t i kind \<Longrightarrow> startMatch t = Some kind"
proof (induction t arbitrary: i)
  case Nil
  then show ?case by (simp add: firstOpener_def openerAt_Nil)
next
  case (Cons c cs)
  show ?case
  proof (cases "openerAt (c # cs) 0")
    case True
    then have "i = 0" using Cons.prems by (cases i) (auto simp: firstOpener_def)
    then show ?thesis using True Cons.prems
      by (simp add: startMatch_Cons firstOpener_def del: startMatch.simps)
  next
    case False
    then obtain i' where i: "i = Suc i'"
      using Cons.prems by (cases i) (auto simp: firstOpener_def)
    have "firstOpener cs i' kind"
      unfolding firstOpener_def
    proof (intro conjI allI impI)
      show "openerAt cs i'" using Cons.prems i by (simp add: firstOpener_def openerAt_Cons_Suc)
    next
      fix j assume "j < i'"
      then have "\<not> openerAt (c # cs) (Suc j)" using Cons.prems i by (simp add: firstOpener_def)
      then show "\<not> openerAt cs j" by (simp add: openerAt_Cons_Suc)
    next
      show "kind = takeWhile isWord (drop 6 (drop i' cs))"
        using Cons.prems i by (simp add: firstOpener_def)
    qed
    then have "startMatch cs = Some kind" by (rule Cons.IH)
    then show ?thesis using False by (simp add: startMatch_Cons del: startMatch.simps)
  qed
qed

lemma lowerAscii_at: "lowerAscii a = lowerAscii 64 \<longleftrightarrow> a = 64"
  by (simp add: lowerAscii_def)

lemma not_openerAt_0: "a \<noteq> 64 \<Longrightarrow> \<not> openerAt (a # cs) 0"
  by (simp add: openerAt_def ciEq_def js_def lowerAscii_at)

lemma takeWhile_sequence:
  "post = [] \<or> \<not> isWord (hd post) \<Longrightarrow> takeWhile isWord (js ''sequence'' @ post) = js ''sequence''"
  by (cases post) (simp_all add: js_def isWord_def)

lemma startMatch_sequence:
  "64 \<notin> set pre \<Longrightarrow> post = [] \<or> \<not> isWord (hd post) \<Longrightarrow>
     startMatch (pre @ js ''@startsequence'' @ post) = Some (js ''sequence'')"
proof (induction pre)
  case Nil
  have "js ''@startsequence'' @ post = js ''@start'' @ (js ''sequence'' @ post)"
    by (simp add: js_def)
  moreover have "startMatch (js ''@start'' @ (js ''sequence'' @ post)) = Some (js ''sequence'')"
    using takeWhile_sequence [OF Nil.prems(2)]
    by (simp add: js_def ciEq_def)
  ultimately show ?case by simp
next
  case (Cons a pre)
  then have "a \<noteq> 64" by auto
  then have "\<not> openerAt (a # (pre @ js ''@startsequence'' @ post)) 0" by (rule not_openerAt_0)
  then show ?case using Cons by (simp add: startMatch_Cons del: startMatch.simps)
qed

lemma trim_repaired_nonempty: "trim (t @ nl @ js ''@end'' @ k) \<noteq> []"
proof -
  have "64 \<in> set (t @ nl @ js ''@end'' @ k)" by (simp add: js_def)
  moreover have "\<not> isSpace 64" by (simp add: isSpace_def)
  ultimately show ?thesis unfolding trim_empty_iff by blast
qed

lemma repair_open: "\<not> closingMarker (trimEnd c) \<Longrightarrow>
  repair c = trimEnd c @ nl @ js ''@end'' @ (case startMatch (trimEnd c) of Some kind \<Rightarrow> kind | None \<Rightarrow> js ''uml'')"
  by (simp add: repair_def Let_def js_def split: option.split)

text \<open>
  Claim C8. For every streaming render whose trimmed text does not end with a recognized
  closing marker, the text sent to the backend is the trimmed text, a line break, and a
  closing tag: \<open>@end\<close> with the kind of the first \<open>@start\<close> opener of the text, or
  \<open>@enduml\<close> when the text has no opener. In particular a text whose first opener is
  \<open>@startsequence\<close> gets \<open>@endsequence\<close>. The repaired text is never blank, so
  \<open>renderPlantUml\<close> requests exactly the URL that encodes it.
\<close>

theorem streaming_repair_appends_closing_tag:
  "\<not> closingMarker (trimEnd c) \<Longrightarrow>
     (\<forall>i kind. firstOpener (trimEnd c) i kind \<longrightarrow>
        renderCode (newRender c True s) = trimEnd c @ nl @ js ''@end'' @ kind)
     \<and> ((\<forall>i. \<not> openerAt (trimEnd c) i) \<longrightarrow>
        renderCode (newRender c True s) = trimEnd c @ nl @ js ''@enduml'')
     \<and> (\<forall>pre post. trimEnd c = pre @ js ''@startsequence'' @ post \<and> 64 \<notin> set pre
            \<and> (post = [] \<or> \<not> isWord (hd post)) \<longrightarrow>
        renderCode (newRender c True s) = trimEnd c @ nl @ js ''@endsequence'')
     \<and> fst (renderPlantUml encode fetch (renderCode (newRender c True s)))
         = [PLANTUML_SERVER @ js ''/svg/'' @ encode (renderCode (newRender c True s))]"
proof -
  assume nc: "\<not> closingMarker (trimEnd c)"
  have rc: "renderCode (newRender c True s) = repair c" by (simp add: newRender_def)
  note rp = repair_open [OF nc]
  have 1: "\<forall>i kind. firstOpener (trimEnd c) i kind \<longrightarrow>
        renderCode (newRender c True s) = trimEnd c @ nl @ js ''@end'' @ kind"
    by (simp add: rc rp startMatch_firstOpener)
  have 2: "(\<forall>i. \<not> openerAt (trimEnd c) i) \<longrightarrow>
        renderCode (newRender c True s) = trimEnd c @ nl @ js ''@enduml''"
  proof
    assume "\<forall>i. \<not> openerAt (trimEnd c) i"
    then have "startMatch (trimEnd c) = None" by (simp add: startMatch_None_iff)
    then show "renderCode (newRender c True s) = trimEnd c @ nl @ js ''@enduml''"
      by (simp add: rc rp js_def)
  qed
  have 3: "\<forall>pre post. trimEnd c = pre @ js ''@startsequence'' @ post \<and> 64 \<notin> set pre
            \<and> (post = [] \<or> \<not> isWord (hd post)) \<longrightarrow>
        renderCode (newRender c True s) = trimEnd c @ nl @ js ''@endsequence''"
  proof (intro allI impI)
    fix pre post
    assume h: "trimEnd c = pre @ js ''@startsequence'' @ post \<and> 64 \<notin> set pre
            \<and> (post = [] \<or> \<not> isWord (hd post))"
    then have "startMatch (trimEnd c) = Some (js ''sequence'')"
      using startMatch_sequence [of pre post] by simp
    then show "renderCode (newRender c True s) = trimEnd c @ nl @ js ''@endsequence''"
      by (simp add: rc rp js_def)
  qed
  have "trim (repair c) \<noteq> []" unfolding rp by (rule trim_repaired_nonempty)
  then have 4: "fst (renderPlantUml encode fetch (renderCode (newRender c True s)))
         = [PLANTUML_SERVER @ js ''/svg/'' @ encode (renderCode (newRender c True s))]"
    by (simp add: rc renderPlantUml_def Let_def split: fetchOutcome.split)
  show ?thesis using 1 2 3 4 by blast
qed

theorem streaming_repair_appends_closing_tag_witness:
  "\<not> closingMarker (trimEnd (js ''@startsequence'' @ nl @ js ''A -> B'' @ nl))
   \<and> firstOpener (trimEnd (js ''@startsequence'' @ nl @ js ''A -> B'' @ nl)) 0 (js ''sequence'')
   \<and> renderCode (newRender (js ''@startsequence'' @ nl @ js ''A -> B'' @ nl) True initialApp)
       = js ''@startsequence'' @ nl @ js ''A -> B'' @ nl @ js ''@endsequence''"
proof -
  let ?c = "js ''@startsequence'' @ nl @ js ''A -> B'' @ nl"
  have t: "trimEnd ?c = js ''@startsequence'' @ nl @ js ''A -> B''"
    by (simp add: trimEnd_def js_def nl_def isSpace_def)
  have h: "\<not> closingMarker (trimEnd ?c)"
    unfolding t by (simp add: closingMarker_def endKinds_def trimEnd_def js_def nl_def
        isSpace_def ciEq_def lowerAscii_def)
  have f: "firstOpener (trimEnd ?c) 0 (js ''sequence'')"
    unfolding t by (simp add: firstOpener_def openerAt_def js_def nl_def ciEq_def
        lowerAscii_def isWord_def)
  have r: "renderCode (newRender ?c True initialApp) = trimEnd ?c @ nl @ js ''@end'' @ js ''sequence''"
    using f streaming_repair_appends_closing_tag [OF h, of initialApp id "\<lambda>u. NetworkFailure []"]
    by blast
  have e: "js ''@end'' @ js ''sequence'' = js ''@endsequence''"
    by (simp add: js_def)
  show ?thesis
    using h f by (simp add: r t e)
qed

section \<open>Properties of doRender\<close>



lemma renderVersion_clearTimeout [simp]: "renderVersion (clearTimeout h s) = renderVersion s"
  by (simp add: clearTimeout_def)

lemma renderVersion_setTimeout [simp]: "renderVersion (snd (setTimeout cb d s)) = renderVersion s"
  by (simp add: setTimeout_def Let_def)

lemma renderVersion_scheduleErrorAutoFix [simp]:
  "renderVersion (scheduleErrorAutoFix m c s) = renderVersion s"
  by (simp add: scheduleErrorAutoFix_def setTimeout_def Let_def split: option.split)

lemma renderVersion_scheduleRender [simp]: "renderVersion (scheduleRender c s) = renderVersion s"
  by (simp add: scheduleRender_def setTimeout_def Let_def split: option.split)

lemma renderVersion_finallyBlock [simp]: "renderVersion (finallyBlock p s) = renderVersion s"
  by (simp add: finallyBlock_def)

lemma renderVersion_doRenderFinish [simp]: "renderVersion (doRenderFinish p r s) = renderVersion s"
  by (cases r) (simp_all add: doRenderFinish_def Let_def)

lemma renderVersion_doRenderStart [simp]:
  "renderVersion (doRenderStart c b s) = renderVersion s + 1"
  by (simp add: doRenderStart_def newRender_def Let_def)

lemma version_newRender [simp]: "version (newRender c b s) = renderVersion s + 1"
  by (simp add: newRender_def)

lemma renderVersion_errorFixCallback [simp]:
  "renderVersion (errorFixCallback m c s) = renderVersion s"
  by (simp add: errorFixCallback_def)




lemma renderVersion_onDocumentChanged [simp]:
  "renderVersion (onDocumentChanged c s) = renderVersion s"
  by (simp add: onDocumentChanged_def codeEffect_def codeEffectCleanup_def split: option.split)




lemma finallyBlock_streaming: "isStreaming p \<Longrightarrow> finallyBlock p s = s"
  by (simp add: finallyBlock_def)

lemma doRenderFinish_streaming_failure: "isStreaming p \<Longrightarrow> doRenderFinish p (Inl msg) s = s"
  by (simp add: doRenderFinish_def finallyBlock_streaming)

lemma doRenderFinish_streaming_error_svg:
  "isStreaming p \<Longrightarrow> isSvgError svg \<Longrightarrow> doRenderFinish p (Inr svg) s = s"
  by (simp add: doRenderFinish_def finallyBlock_streaming)

lemma doRenderFinish_streaming_valid:
  "isStreaming p \<Longrightarrow> \<not> isSvgError svg \<Longrightarrow> version p = renderVersion s \<Longrightarrow>
     doRenderFinish p (Inr svg) s = s\<lparr>svgContent := Some svg, renderError := None\<rparr>"
  by (simp add: doRenderFinish_def finallyBlock_streaming)

lemma doRenderStart_streaming:
  "doRenderStart c True s = s\<lparr>renderVersion := renderVersion s + 1,
                               renders := renders s @ [newRender c True s]\<rparr>"
  by (simp add: doRenderStart_def newRender_def Let_def)

lemma doRenderFinish_streaming_errorBearing:
  "isStreaming p \<Longrightarrow> errorBearing r \<Longrightarrow> doRenderFinish p r s = s"
  by (cases r) (simp_all add: errorBearing_def doRenderFinish_streaming_failure
      doRenderFinish_streaming_error_svg)



lemma isStreaming_newRender [simp]: "isStreaming (newRender c b s) = b"
  by (simp add: newRender_def)




text \<open>
  Claim C2. In a streaming render, a backend call that fails and an SVG that shows an
  error leave the state as it is, so the SVG on display and the visible error are what
  they were before the render; the start of a streaming render does not touch them
  either. A response of the current version that is not error-bearing replaces the SVG
  and clears the error, and nothing else changes either of the two.
\<close>

theorem streaming_render_keeps_last_good_output:
  "isStreaming p \<Longrightarrow>
     (errorBearing r \<longrightarrow> doRenderFinish p r s = s)
     \<and> (\<not> errorBearing r \<and> version p = renderVersion s \<longrightarrow>
           (\<exists>svg. r = Inr svg \<and> svgContent (doRenderFinish p r s) = Some svg)
           \<and> renderError (doRenderFinish p r s) = None)
     \<and> (svgContent (doRenderFinish p r s) \<noteq> svgContent s
          \<or> renderError (doRenderFinish p r s) \<noteq> renderError s \<longrightarrow> \<not> errorBearing r)
     \<and> isStreaming (newRender c True s)
     \<and> svgContent (doRenderStart c True s) = svgContent s
     \<and> renderError (doRenderStart c True s) = renderError s
     \<and> (errorBearing (snd (renderPlantUml encode fetch (renderCode (newRender c True s)))) \<longrightarrow>
           svgContent (doRender encode fetch c True s) = svgContent s
           \<and> renderError (doRender encode fetch c True s) = renderError s)"
proof -
  assume st: "isStreaming p"
  have 1: "errorBearing r \<longrightarrow> doRenderFinish p r s = s"
    using st by (simp add: doRenderFinish_streaming_errorBearing)
  have 2: "\<not> errorBearing r \<and> version p = renderVersion s \<longrightarrow>
           (\<exists>svg. r = Inr svg \<and> svgContent (doRenderFinish p r s) = Some svg)
           \<and> renderError (doRenderFinish p r s) = None"
    using st by (cases r) (simp_all add: errorBearing_def doRenderFinish_streaming_valid)
  have 3: "svgContent (doRenderFinish p r s) \<noteq> svgContent s
          \<or> renderError (doRenderFinish p r s) \<noteq> renderError s \<longrightarrow> \<not> errorBearing r"
    using 1 by auto
  have 4: "isStreaming (newRender c True s)" by (simp add: newRender_def)
  have 5: "svgContent (doRenderStart c True s) = svgContent s"
          "renderError (doRenderStart c True s) = renderError s"
    by (simp_all add: doRenderStart_streaming)
  have 6: "errorBearing (snd (renderPlantUml encode fetch (renderCode (newRender c True s)))) \<longrightarrow>
           svgContent (doRender encode fetch c True s) = svgContent s
           \<and> renderError (doRender encode fetch c True s) = renderError s"
    using 4 5 by (simp add: doRender_def Let_def doRenderFinish_streaming_errorBearing)
  show ?thesis using 1 2 3 4 5 6 by blast
qed

theorem streaming_render_keeps_last_good_output_witness:
  "isStreaming (newRender (js ''@startuml'') True initialApp)
   \<and> errorBearing (Inr (js ''<svg>Syntax Error</svg>''))
   \<and> doRenderFinish (newRender (js ''@startuml'') True initialApp)
        (Inr (js ''<svg>Syntax Error</svg>'')) (doRenderStart (js ''@startuml'') True initialApp)
       = doRenderStart (js ''@startuml'') True initialApp"
proof -
  have i: "isStreaming (newRender (js ''@startuml'') True initialApp)"
    by (simp add: newRender_def)
  have e: "errorBearing (Inr (js ''<svg>Syntax Error</svg>''))"
    by code_simp
  show ?thesis
    using i e streaming_render_keeps_last_good_output
       [OF i, of "Inr (js ''<svg>Syntax Error</svg>'')"
          "doRenderStart (js ''@startuml'') True initialApp"]
    by blast
qed

section \<open>Properties of the event loop and the auto-fix\<close>

lemma advance_not_due:
  "\<forall>x \<in> set (timeouts s). t < due x \<Longrightarrow> advance t s = s\<lparr>clock := max (clock s) t\<rparr>"
proof -
  assume a: "\<forall>x \<in> set (timeouts s). t < due x"
  have "filter (\<lambda>x. due x \<le> t) (timeouts s) = []"
    using a by (auto simp: filter_empty_conv)
  moreover have "filter (\<lambda>x. \<not> due x \<le> t) (timeouts s) = timeouts s"
    using a by (auto simp: filter_id_conv)
  ultimately show ?thesis by (simp add: advance_def)
qed

lemma advance_single_due:
  "timeouts s = [x] \<Longrightarrow> due x \<le> t \<Longrightarrow>
     advance t s =
       (let s' = fire (callback x) (s\<lparr>timeouts := [], clock := max (clock s) (due x)\<rparr>)
        in s'\<lparr>clock := max (clock s') t\<rparr>)"
  by (simp add: advance_def Let_def)

lemma errorFixCallback_sent:
  "sentMessages (errorFixCallback m c s) =
     (if appRef s \<and> isToolInputError s \<and> errorAlreadySent s \<noteq> Some (errorKey m c)
      then sentMessages s @ [fixRequest m c] else sentMessages s)"
  by (simp add: errorFixCallback_def)

lemma errorFixCallback_key:
  "errorAlreadySent (errorFixCallback m c s) =
     (if appRef s \<and> isToolInputError s then Some (errorKey m c) else errorAlreadySent s)"
  by (auto simp add: errorFixCallback_def)

lemma errorFixCallback_other [simp]:
  "appRef (errorFixCallback m c s) = appRef s"
  "isToolInputError (errorFixCallback m c s) = isToolInputError s"
  "timeouts (errorFixCallback m c s) = timeouts s"
  "errorFixTimer (errorFixCallback m c s) = errorFixTimer s"
  "clock (errorFixCallback m c s) = clock s"
  "timerCount (errorFixCallback m c s) = timerCount s"
  by (simp_all add: errorFixCallback_def)

text \<open>No callback sends a message while the document is not flagged as agent-originated.\<close>

lemma fire_flag_down:
  "\<not> isToolInputError s \<Longrightarrow>
     \<not> isToolInputError (fire cb s) \<and> sentMessages (fire cb s) = sentMessages s"
  by (cases cb) (simp_all add: doRenderStart_def Let_def errorFixCallback_def)

lemma fold_fire_flag_down:
  "\<not> isToolInputError s \<Longrightarrow>
     sentMessages (foldl (\<lambda>st x. fire (callback x) (st\<lparr>clock := max (clock st) (due x)\<rparr>)) s xs)
       = sentMessages s"
proof (induction xs arbitrary: s)
  case Nil
  then show ?case by simp
next
  case (Cons x xs)
  let ?s = "fire (callback x) (s\<lparr>clock := max (clock s) (due x)\<rparr>)"
  have "\<not> isToolInputError ?s \<and> sentMessages ?s = sentMessages s"
    using fire_flag_down [of "s\<lparr>clock := max (clock s) (due x)\<rparr>" "callback x"] Cons.prems
    by simp
  then show ?case using Cons.IH [of ?s] by simp
qed

lemma advance_flag_down:
  "\<not> isToolInputError s \<Longrightarrow> sentMessages (advance t s) = sentMessages s"
  using fold_fire_flag_down
          [of "s\<lparr>timeouts := filter (\<lambda>x. \<not> due x \<le> t) (timeouts s)\<rparr>"
              "sort_key due (filter (\<lambda>x. due x \<le> t) (timeouts s))"]
  by (simp add: advance_def Let_def)

lemma scheduleErrorAutoFix_eq:
  "scheduleErrorAutoFix m c s =
     s\<lparr>timeouts := (case errorFixTimer s of None \<Rightarrow> timeouts s
                     | Some h \<Rightarrow> filter (\<lambda>x. handle x \<noteq> h) (timeouts s))
                    @ [\<lparr>handle = timerCount s + 1, due = clock s + 3000,
                        callback = ErrorFixTimeout m c\<rparr>],
        timerCount := timerCount s + 1,
        errorFixTimer := Some (timerCount s + 1)\<rparr>"
  by (simp add: scheduleErrorAutoFix_def setTimeout_def clearTimeout_def Let_def
      split: option.split)

lemma doRenderFinish_error_eq:
  "\<not> isStreaming p \<Longrightarrow> version p = renderVersion s \<Longrightarrow> isSvgError svg \<Longrightarrow>
     doRenderFinish p (Inr svg) s =
       (scheduleErrorAutoFix syntaxErrorMsg (code p)
          (s\<lparr>svgContent := Some svg, renderError := Some (js ''PlantUML syntax error'')\<rparr>))
       \<lparr>renderLoading := False\<rparr>"
  by (simp add: doRenderFinish_def finallyBlock_def Let_def scheduleErrorAutoFix_eq)

text \<open>The state after a render that came back with an error.\<close>

lemma after_error_timeouts:
  assumes "\<not> isStreaming p" "version p = renderVersion s" "isSvgError svg"
  shows "timeouts (doRenderFinish p (Inr svg) s)
         = (case errorFixTimer s of None \<Rightarrow> timeouts s
                     | Some h \<Rightarrow> filter (\<lambda>x. handle x \<noteq> h) (timeouts s))
           @ [\<lparr>handle = timerCount s + 1, due = clock s + 3000,
                        callback = ErrorFixTimeout syntaxErrorMsg (code p)\<rparr>]"
    and "errorFixTimer (doRenderFinish p (Inr svg) s) = Some (timerCount s + 1)"
    and "sentMessages (doRenderFinish p (Inr svg) s) = sentMessages s"
    and "isToolInputError (doRenderFinish p (Inr svg) s) = isToolInputError s"
    and "errorAlreadySent (doRenderFinish p (Inr svg) s) = errorAlreadySent s"
    and "appRef (doRenderFinish p (Inr svg) s) = appRef s"
    and "clock (doRenderFinish p (Inr svg) s) = clock s"
    and "timerCount (doRenderFinish p (Inr svg) s) = timerCount s + 1"
  using assms by (simp_all add: doRenderFinish_error_eq scheduleErrorAutoFix_eq split: option.split)


lemma errorKey_take: "take 200 c' = take 200 c \<Longrightarrow> errorKey m c' = errorKey m c"
  by (simp add: errorKey_def)

lemma error_then_advance:
  assumes "\<not> isStreaming p" "version p = renderVersion s" "isSvgError svg" "noOtherTimeout s"
  shows "sentMessages (advance t (doRenderFinish p (Inr svg) s)) =
           (if clock s + 3000 \<le> t \<and> appRef s \<and> isToolInputError s
               \<and> errorAlreadySent s \<noteq> Some (errorKey syntaxErrorMsg (code p))
            then sentMessages s @ [fixRequest syntaxErrorMsg (code p)] else sentMessages s)"
    and "errorAlreadySent (advance t (doRenderFinish p (Inr svg) s)) =
           (if clock s + 3000 \<le> t \<and> appRef s \<and> isToolInputError s
            then Some (errorKey syntaxErrorMsg (code p)) else errorAlreadySent s)"
    and "isToolInputError (advance t (doRenderFinish p (Inr svg) s)) = isToolInputError s"
    and "appRef (advance t (doRenderFinish p (Inr svg) s)) = appRef s"
    and "noOtherTimeout (advance t (doRenderFinish p (Inr svg) s))"
proof -
  let ?s1 = "doRenderFinish p (Inr svg) s"
  let ?x = "\<lparr>handle = timerCount s + 1, due = clock s + 3000,
             callback = ErrorFixTimeout syntaxErrorMsg (code p)\<rparr>"
  note f = after_error_timeouts [OF assms(1-3)]
  have tm: "timeouts ?s1 = [?x]"
    using assms(4) by (simp add: f(1) noOtherTimeout_def)
  show "sentMessages (advance t ?s1) =
           (if clock s + 3000 \<le> t \<and> appRef s \<and> isToolInputError s
               \<and> errorAlreadySent s \<noteq> Some (errorKey syntaxErrorMsg (code p))
            then sentMessages s @ [fixRequest syntaxErrorMsg (code p)] else sentMessages s)"
  proof (cases "clock s + 3000 \<le> t")
    case True
    then show ?thesis
      using advance_single_due [OF tm, of t]
      by (simp add: Let_def errorFixCallback_sent f)
  next
    case False
    then show ?thesis
      using advance_not_due [of ?s1 t] by (simp add: tm f)
  qed
  show "errorAlreadySent (advance t ?s1) =
           (if clock s + 3000 \<le> t \<and> appRef s \<and> isToolInputError s
            then Some (errorKey syntaxErrorMsg (code p)) else errorAlreadySent s)"
  proof (cases "clock s + 3000 \<le> t")
    case True
    then show ?thesis
      using advance_single_due [OF tm, of t]
      by (simp add: Let_def errorFixCallback_key f)
  next
    case False
    then show ?thesis
      using advance_not_due [of ?s1 t] by (simp add: tm f)
  qed
  show "isToolInputError (advance t ?s1) = isToolInputError s"
  proof (cases "clock s + 3000 \<le> t")
    case True
    then show ?thesis
      using advance_single_due [OF tm, of t] by (simp add: Let_def f)
  next
    case False
    then show ?thesis
      using advance_not_due [of ?s1 t] by (simp add: tm f)
  qed
  show "appRef (advance t ?s1) = appRef s"
  proof (cases "clock s + 3000 \<le> t")
    case True
    then show ?thesis
      using advance_single_due [OF tm, of t] by (simp add: Let_def f)
  next
    case False
    then show ?thesis
      using advance_not_due [of ?s1 t] by (simp add: tm f)
  qed
  show "noOtherTimeout (advance t ?s1)"
  proof (cases "clock s + 3000 \<le> t")
    case True
    then show ?thesis
      using advance_single_due [OF tm, of t] by (simp add: Let_def f noOtherTimeout_def split: option.split)
  next
    case False
    then show ?thesis
      using advance_not_due [of ?s1 t] by (simp add: tm f noOtherTimeout_def)
  qed
qed

lemma doRenderStart_keeps [simp]:
  "sentMessages (doRenderStart c b s) = sentMessages s"
  "errorAlreadySent (doRenderStart c b s) = errorAlreadySent s"
  "isToolInputError (doRenderStart c b s) = isToolInputError s"
  "appRef (doRenderStart c b s) = appRef s"
  "timeouts (doRenderStart c b s) = timeouts s"
  "errorFixTimer (doRenderStart c b s) = errorFixTimer s"
  "clock (doRenderStart c b s) = clock s"
  by (simp_all add: doRenderStart_def Let_def)

lemma noOtherTimeout_doRenderStart [simp]:
  "noOtherTimeout (doRenderStart c b s) = noOtherTimeout s"
  by (simp add: noOtherTimeout_def split: option.split)

lemma newRender_current:
  "\<not> isStreaming (newRender c False s)"
  "version (newRender c False s) = renderVersion (doRenderStart c False s)"
  "code (newRender c False s) = c"
  by (simp_all add: newRender_def doRenderStart_def Let_def)


lemma scheduleRender_eq:
  "scheduleRender c s =
     s\<lparr>timeouts := (case renderTimer s of None \<Rightarrow> timeouts s
                     | Some h \<Rightarrow> filter (\<lambda>x. handle x \<noteq> h) (timeouts s))
                    @ [\<lparr>handle = timerCount s + 1, due = clock s + 800,
                        callback = RenderTimeout c\<rparr>],
        timerCount := timerCount s + 1,
        renderTimer := Some (timerCount s + 1)\<rparr>"
  by (simp add: scheduleRender_def setTimeout_def clearTimeout_def Let_def
      split: option.split)

lemma codeEffectCleanup_eq:
  "codeEffectCleanup s =
     s\<lparr>timeouts := (case renderTimer s of None \<Rightarrow> timeouts s
                     | Some h \<Rightarrow> filter (\<lambda>x. handle x \<noteq> h) (timeouts s))\<rparr>"
  by (simp add: codeEffectCleanup_def clearTimeout_def split: option.split)

lemma onDocumentChanged_keeps [simp]:
  "sentMessages (onDocumentChanged c s) = sentMessages s"
  "isToolInputError (onDocumentChanged c s) = isToolInputError s"
  by (simp_all add: onDocumentChanged_def codeEffect_def codeEffectCleanup_eq scheduleRender_eq)

lemma handleCodeChange_keeps [simp]:
  "sentMessages (handleCodeChange c s) = sentMessages s"
  "isToolInputError (handleCodeChange c s) = False"
  by (simp_all add: handleCodeChange_def Let_def)


lemma initialApp_fields [simp]:
  "timeouts initialApp = []" "clock initialApp = 0" "renders initialApp = []"
  "renderVersion initialApp = 0" "appRef initialApp" "sentMessages initialApp = []"
  "errorAlreadySent initialApp = None" "errorFixTimer initialApp = None"
  by (simp_all add: initialApp_def)

lemma clock_fire [simp]: "clock (fire cb s) = clock s"
  by (cases cb) simp_all

lemma clock_fold_fire:
  "\<forall>x \<in> set xs. due x \<le> t \<Longrightarrow>
     max (clock (foldl (\<lambda>st x. fire (callback x) (st\<lparr>clock := max (clock st) (due x)\<rparr>)) s xs)) t
       = max (clock s) t"
proof (induction xs arbitrary: s)
  case Nil
  then show ?case by simp
next
  case (Cons x xs)
  have "max (clock (foldl (\<lambda>st x. fire (callback x) (st\<lparr>clock := max (clock st) (due x)\<rparr>))
               (fire (callback x) (s\<lparr>clock := max (clock s) (due x)\<rparr>)) xs)) t
        = max (clock (fire (callback x) (s\<lparr>clock := max (clock s) (due x)\<rparr>))) t"
    using Cons.prems by (intro Cons.IH) simp
  also have "\<dots> = max (clock s) t" using Cons.prems by (simp add: max_def)
  finally show ?case by simp
qed

lemma clock_advance: "clock (advance t s) = max (clock s) t"
  using clock_fold_fire
          [of "sort_key due (filter (\<lambda>x. due x \<le> t) (timeouts s))" t
              "s\<lparr>timeouts := filter (\<lambda>x. \<not> due x \<le> t) (timeouts s)\<rparr>"]
  by (simp add: advance_def Let_def)

lemma clock_finallyBlock [simp]: "clock (finallyBlock p s) = clock s"
  by (simp add: finallyBlock_def)

lemma clock_scheduleErrorAutoFix [simp]: "clock (scheduleErrorAutoFix m c s) = clock s"
  by (simp add: scheduleErrorAutoFix_eq)

lemma clock_doRenderFinish [simp]: "clock (doRenderFinish p r s) = clock s"
  by (cases r) (simp_all add: doRenderFinish_def Let_def)

lemma doRenderFinish_valid_eq:
  "\<not> isStreaming p \<Longrightarrow> version p = renderVersion s \<Longrightarrow> \<not> isSvgError svg \<Longrightarrow>
     doRenderFinish p (Inr svg) s =
       s\<lparr>svgContent := Some svg, renderError := None, errorAlreadySent := None,
          renderLoading := False\<rparr>"
  by (simp add: doRenderFinish_def finallyBlock_def Let_def)

lemma noOtherTimeout_valid_finish:
  "\<not> isStreaming p \<Longrightarrow> version p = renderVersion s \<Longrightarrow> \<not> isSvgError svg \<Longrightarrow>
     noOtherTimeout (doRenderFinish p (Inr svg) s) = noOtherTimeout s"
  by (simp add: doRenderFinish_valid_eq noOtherTimeout_def split: option.split)

lemma renderPlantUml_answering:
  "trim c \<noteq> [] \<Longrightarrow> snd (renderPlantUml encode (answering svg) c) = Inr svg"
  by (simp add: renderPlantUml_def answering_def Let_def)

lemma doRender_answering:
  "trim c \<noteq> [] \<Longrightarrow>
     doRender encode (answering svg) c False s
       = doRenderFinish (newRender c False s) (Inr svg) (doRenderStart c False s)"
  by (simp add: doRender_def Let_def newRender_def renderPlantUml_answering)

lemma trim_X: "trim (js ''@startuml X'') \<noteq> []" "trim (js ''@startuml Y'') \<noteq> []"
  by (simp_all add: trim_def trimEnd_def trimStart_def js_def isSpace_def)

text \<open>
  Claim C4, as the code has it. A non-streaming render of the current version comes back
  with an SVG that shows an error, in a state with a connected app where no timeout is
  pending but, possibly, the one of an earlier error. Before 3000 ms have passed no message is sent. Once they have passed, exactly
  one fix request is sent if the document is still flagged as agent-originated and the
  fingerprint of the error message and the first 200 characters of the rendered text
  differs from the recorded one, and none otherwise. A manual edit in between clears the
  flag, so nothing is sent. A second render with the same error and the same first 200
  characters that follows sends nothing further once the first request has gone out, and
  the two errors together never send more than one request. The recorded fingerprint is
  cleared by a non-streaming render that comes back without an error.
\<close>

theorem autofix_one_request:
  "appRef s \<Longrightarrow> noOtherTimeout s \<Longrightarrow> \<not> isStreaming p \<Longrightarrow> version p = renderVersion s \<Longrightarrow>
   isSvgError svg \<Longrightarrow> isSvgError svg' \<Longrightarrow> take 200 c' = take 200 (code p) \<Longrightarrow>
     (t < clock s + 3000 \<longrightarrow>
        sentMessages (advance t (doRenderFinish p (Inr svg) s)) = sentMessages s)
     \<and> (clock s + 3000 \<le> t \<longrightarrow>
        sentMessages (advance t (doRenderFinish p (Inr svg) s)) =
          (if isToolInputError s \<and> errorAlreadySent s \<noteq> Some (errorKey syntaxErrorMsg (code p))
           then sentMessages s @ [fixRequest syntaxErrorMsg (code p)]
           else sentMessages s))
     \<and> sentMessages (advance t (onDocumentChanged e (handleCodeChange e (doRenderFinish p (Inr svg) s))))
         = sentMessages s
     \<and> (clock s + 3000 \<le> t \<longrightarrow>
        sentMessages (advance t'
           (doRenderFinish (newRender c' False (advance t (doRenderFinish p (Inr svg) s))) (Inr svg')
              (doRenderStart c' False (advance t (doRenderFinish p (Inr svg) s)))))
         = sentMessages (advance t (doRenderFinish p (Inr svg) s)))
     \<and> length (sentMessages (advance t'
           (doRenderFinish (newRender c' False (advance t (doRenderFinish p (Inr svg) s))) (Inr svg')
              (doRenderStart c' False (advance t (doRenderFinish p (Inr svg) s))))))
         \<le> length (sentMessages s) + 1
     \<and> (\<forall>q v u. \<not> isStreaming q \<and> version q = renderVersion u \<and> \<not> isSvgError v \<longrightarrow>
            errorAlreadySent (doRenderFinish q (Inr v) u) = None)"
proof -
  assume app: "appRef s" and no: "noOtherTimeout s"
    and p: "\<not> isStreaming p" "version p = renderVersion s"
    and svg: "isSvgError svg" and svg': "isSvgError svg'"
    and same: "take 200 c' = take 200 (code p)"
  let ?s1 = "doRenderFinish p (Inr svg) s"
  let ?s2 = "advance t ?s1"
  let ?p' = "newRender c' False ?s2"
  let ?s3 = "doRenderStart c' False ?s2"
  let ?s5 = "advance t' (doRenderFinish ?p' (Inr svg') ?s3)"
  let ?key = "errorKey syntaxErrorMsg (code p)"
  note first = error_then_advance [OF p svg no, of t]
  have key': "errorKey syntaxErrorMsg (code ?p') = ?key"
    using same by (simp add: newRender_current errorKey_def)
  have no3: "noOtherTimeout ?s3" using first(5) by simp
  note second = error_then_advance [OF newRender_current(1) newRender_current(2) svg' no3, of t']
  have a: "t < clock s + 3000 \<longrightarrow> sentMessages ?s2 = sentMessages s"
    by (simp add: first(1))
  have b: "clock s + 3000 \<le> t \<longrightarrow>
        sentMessages ?s2 =
          (if isToolInputError s \<and> errorAlreadySent s \<noteq> Some ?key
           then sentMessages s @ [fixRequest syntaxErrorMsg (code p)]
           else sentMessages s)"
    using app by (simp add: first(1))
  have c: "sentMessages (advance t (onDocumentChanged e (handleCodeChange e ?s1))) = sentMessages s"
  proof -
    have "\<not> isToolInputError (onDocumentChanged e (handleCodeChange e ?s1))"
      by simp
    then have "sentMessages (advance t (onDocumentChanged e (handleCodeChange e ?s1)))
               = sentMessages (onDocumentChanged e (handleCodeChange e ?s1))"
      by (rule advance_flag_down)
    also have "\<dots> = sentMessages ?s1"
      by simp
    also have "\<dots> = sentMessages s"
      using after_error_timeouts(3) [OF p svg] .
    finally show ?thesis .
  qed
  have d: "clock s + 3000 \<le> t \<longrightarrow> sentMessages ?s5 = sentMessages ?s2"
    using app by (simp add: second(1) key' first)
  have e: "length (sentMessages ?s5) \<le> length (sentMessages s) + 1"
    using app by (simp add: second(1) key' first)
  have g: "\<forall>q v u. \<not> isStreaming q \<and> version q = renderVersion u \<and> \<not> isSvgError v \<longrightarrow>
            errorAlreadySent (doRenderFinish q (Inr v) u) = None"
    by (simp add: doRenderFinish_valid_eq)
  show ?thesis using a b c d e g by - (intro conjI; assumption)
qed

theorem autofix_one_request_witness:
  "appRef (doRenderStart (js ''@startuml X'') False (ontoolinput (Some (js ''@startuml X'')) initialApp))
   \<and> noOtherTimeout (doRenderStart (js ''@startuml X'') False
                  (ontoolinput (Some (js ''@startuml X'')) initialApp))
   \<and> isSvgError brokenSvg
   \<and> sentMessages
        (advance 3000
           (doRenderFinish
              (newRender (js ''@startuml X'') False (ontoolinput (Some (js ''@startuml X'')) initialApp))
              (Inr brokenSvg)
              (doRenderStart (js ''@startuml X'') False
                 (ontoolinput (Some (js ''@startuml X'')) initialApp))))
       = [fixRequest syntaxErrorMsg (js ''@startuml X'')]"
proof -
  let ?X = "js ''@startuml X''"
  let ?a0 = "ontoolinput (Some ?X) initialApp"
  let ?s = "doRenderStart ?X False ?a0"
  let ?p = "newRender ?X False ?a0"
  have h: "appRef ?s" "noOtherTimeout ?s" "\<not> isStreaming ?p" "version ?p = renderVersion ?s"
    "take 200 ?X = take 200 (code ?p)"
    by (simp_all add: ontoolinput_def newRender_current noOtherTimeout_def)
  have f: "isToolInputError ?s" "errorAlreadySent ?s = None" "sentMessages ?s = []" "clock ?s = 0"
    by (simp_all add: ontoolinput_def)
  note one = autofix_one_request [OF h(1) h(2) h(3) h(4) brokenSvg_error brokenSvg_error h(5),
      of 3000 "[]" 7000]
  show ?thesis
    using one h(1) h(2) f brokenSvg_error by (simp add: newRender_current)
qed

text \<open>
  The claim as stated fails: after a tool input with a broken text the request goes out;
  a render of a valid text then clears the recorded fingerprint; the same broken text
  rendered again sends a second request with the same fingerprint.
\<close>

theorem autofix_repeats_after_valid_render_counterexample:
  "sentMessages
     (advance 6000
        (doRender id (answering brokenSvg) (js ''@startuml X'') False
           (doRender id (answering validSvg) (js ''@startuml Y'') False
              (advance 3000
                 (doRender id (answering brokenSvg) (js ''@startuml X'') False
                    (ontoolinput (Some (js ''@startuml X'')) initialApp))))))
   = [fixRequest syntaxErrorMsg (js ''@startuml X''), fixRequest syntaxErrorMsg (js ''@startuml X'')]"
proof -
  let ?X = "js ''@startuml X''"
  let ?Y = "js ''@startuml Y''"
  let ?a0 = "ontoolinput (Some ?X) initialApp"
  let ?a1 = "advance 3000 (doRender id (answering brokenSvg) ?X False ?a0)"
  let ?a2 = "doRender id (answering validSvg) ?Y False ?a1"
  have a0: "appRef ?a0" "isToolInputError ?a0" "noOtherTimeout ?a0" "clock ?a0 = 0"
    "errorAlreadySent ?a0 = None" "sentMessages ?a0 = []"
    by (simp_all add: ontoolinput_def noOtherTimeout_def)
  note nr = newRender_current(1) newRender_current(2)
  have n0: "noOtherTimeout (doRenderStart ?X False ?a0)" using a0(3) by simp
  note e1 = error_then_advance [OF nr brokenSvg_error n0, of 3000]
  have a1: "sentMessages ?a1 = [fixRequest syntaxErrorMsg ?X]"
    "errorAlreadySent ?a1 = Some (errorKey syntaxErrorMsg ?X)"
    "isToolInputError ?a1" "appRef ?a1" "noOtherTimeout ?a1" "clock ?a1 = 3000"
    using e1 a0 by (simp_all add: doRender_answering trim_X newRender_current clock_advance)
  have a2eq: "?a2 = (doRenderStart ?Y False ?a1)\<lparr>svgContent := Some validSvg, renderError := None,
          errorAlreadySent := None, renderLoading := False\<rparr>"
    by (simp add: doRender_answering trim_X doRenderFinish_valid_eq nr validSvg_ok)
  have a2n: "noOtherTimeout ?a2"
    using a1(5) by (simp add: doRender_answering trim_X noOtherTimeout_valid_finish nr validSvg_ok)
  have a2: "sentMessages ?a2 = [fixRequest syntaxErrorMsg ?X]"
    "errorAlreadySent ?a2 = None"
    "isToolInputError ?a2" "appRef ?a2" "clock ?a2 = 3000"
    using a1 unfolding a2eq by simp_all
  have n2: "noOtherTimeout (doRenderStart ?X False ?a2)" using a2n by simp
  note e2 = error_then_advance [OF nr brokenSvg_error n2, of 6000]
  show ?thesis
    using e2(1) a2 by (simp add: doRender_answering trim_X newRender_current)
qed

section \<open>Properties of the debounce\<close>

lemma onDocumentChanged_eq:
  "onDocumentChanged c s =
     (let cleared = (case renderTimer s of None \<Rightarrow> timeouts s
                     | Some h \<Rightarrow> filter (\<lambda>x. handle x \<noteq> h) (timeouts s))
      in if trim c \<noteq> []
         then s\<lparr>plantUmlCode := c,
                timeouts := cleared @ [\<lparr>handle = timerCount s + 1, due = clock s + 800,
                                        callback = RenderTimeout c\<rparr>],
                timerCount := timerCount s + 1,
                renderTimer := Some (timerCount s + 1)\<rparr>
         else s\<lparr>plantUmlCode := c, timeouts := cleared\<rparr>)"
  by (simp add: onDocumentChanged_def codeEffect_def codeEffectCleanup_eq scheduleRender_eq
      Let_def split: option.split)

lemma fire_errorFix_keeps:
  "\<not> isRenderTimeout x \<Longrightarrow>
     renders (fire (callback x) s) = renders s
     \<and> renderVersion (fire (callback x) s) = renderVersion s
     \<and> timeouts (fire (callback x) s) = timeouts s
     \<and> renderTimer (fire (callback x) s) = renderTimer s
     \<and> timerCount (fire (callback x) s) = timerCount s"
  by (cases "callback x") (simp_all add: isRenderTimeout_def errorFixCallback_def)

lemma firing_Nil [simp]: "firing s [] = s"
  by (simp add: firing_def)

lemma firing_Cons [simp]:
  "firing s (x # xs) = firing (fire (callback x) (s\<lparr>clock := max (clock s) (due x)\<rparr>)) xs"
  by (simp add: firing_def)

lemma firing_append: "firing s (xs @ ys) = firing (firing s xs) ys"
  by (simp add: firing_def)

lemma advance_firing:
  "advance t s =
     (let s2 = firing (s\<lparr>timeouts := filter (\<lambda>x. \<not> due x \<le> t) (timeouts s)\<rparr>)
                 (sort_key due (filter (\<lambda>x. due x \<le> t) (timeouts s)))
      in s2\<lparr>clock := max (clock s2) t\<rparr>)"
  by (simp add: advance_def firing_def)

lemma firing_errorFix_keeps:
  "\<forall>x \<in> set xs. \<not> isRenderTimeout x \<Longrightarrow>
     renders (firing s xs) = renders s
     \<and> renderVersion (firing s xs) = renderVersion s
     \<and> timeouts (firing s xs) = timeouts s
     \<and> renderTimer (firing s xs) = renderTimer s
     \<and> timerCount (firing s xs) = timerCount s"
proof (induction xs arbitrary: s)
  case Nil
  then show ?case by simp
next
  case (Cons x xs)
  let ?s = "fire (callback x) (s\<lparr>clock := max (clock s) (due x)\<rparr>)"
  have x: "\<not> isRenderTimeout x" and xs: "\<forall>y \<in> set xs. \<not> isRenderTimeout y"
    using Cons.prems by simp_all
  have "renders ?s = renders s \<and> renderVersion ?s = renderVersion s
        \<and> timeouts ?s = timeouts s \<and> renderTimer ?s = renderTimer s
        \<and> timerCount ?s = timerCount s"
    using fire_errorFix_keeps [OF x, of "s\<lparr>clock := max (clock s) (due x)\<rparr>"] by simp
  then show ?case using Cons.IH [OF xs, of ?s] by simp
qed

lemma ready_renderTimeouts:
  "filter isRenderTimeout (sort_key due (filter (\<lambda>x. due x \<le> t) (timeouts s)))
     = sort_key due (filter (\<lambda>x. due x \<le> t) (renderTimeouts s))"
  by (simp add: renderTimeouts_def filter_sort) (metis filter_filter conj_commute)

lemma advance_no_render_due:
  assumes "\<forall>x \<in> set (renderTimeouts s). t < due x"
  shows "renders (advance t s) = renders s"
    and "renderVersion (advance t s) = renderVersion s"
    and "renderTimeouts (advance t s) = renderTimeouts s"
    and "renderTimer (advance t s) = renderTimer s"
    and "timerCount (advance t s) = timerCount s"
proof -
  let ?ready = "sort_key due (filter (\<lambda>x. due x \<le> t) (timeouts s))"
  let ?s1 = "s\<lparr>timeouts := filter (\<lambda>x. \<not> due x \<le> t) (timeouts s)\<rparr>"
  have "filter (\<lambda>x. due x \<le> t) (renderTimeouts s) = []"
    using assms by (auto simp: filter_empty_conv)
  then have "filter isRenderTimeout ?ready = []"
    by (simp add: ready_renderTimeouts)
  then have none: "\<forall>x \<in> set ?ready. \<not> isRenderTimeout x"
    by (simp only: filter_empty_conv) 
  note k = firing_errorFix_keeps [OF none, of ?s1]
  have rt: "filter isRenderTimeout (filter (\<lambda>x. \<not> due x \<le> t) (timeouts s)) = renderTimeouts s"
  proof -
    have "filter isRenderTimeout (filter (\<lambda>x. \<not> due x \<le> t) (timeouts s))
          = filter (\<lambda>x. \<not> due x \<le> t) (renderTimeouts s)"
      by (simp add: renderTimeouts_def) (metis conj_commute)
    also have "\<dots> = renderTimeouts s"
      using assms by (auto simp: filter_id_conv)
    finally show ?thesis .
  qed
  show "renders (advance t s) = renders s" using k by (simp add: advance_firing Let_def)
  show "renderVersion (advance t s) = renderVersion s" using k by (simp add: advance_firing Let_def)
  show "renderTimeouts (advance t s) = renderTimeouts s"
    using k rt by (simp add: advance_firing Let_def renderTimeouts_def)
  show "renderTimer (advance t s) = renderTimer s" using k by (simp add: advance_firing Let_def)
  show "timerCount (advance t s) = timerCount s" using k by (simp add: advance_firing Let_def)
qed


lemma renderTimeouts_onDocumentChanged:
  "renderTimeouts (onDocumentChanged c s) =
     (case renderTimer s of None \<Rightarrow> renderTimeouts s
      | Some h \<Rightarrow> filter (\<lambda>x. handle x \<noteq> h) (renderTimeouts s))
     @ (if trim c \<noteq> []
        then [\<lparr>handle = timerCount s + 1, due = clock s + 800, callback = RenderTimeout c\<rparr>]
        else [])"
proof -
  have sw: "\<And>h ts. filter isRenderTimeout (filter (\<lambda>x. handle x \<noteq> h) ts)
             = filter (\<lambda>x. handle x \<noteq> h) (filter isRenderTimeout ts)"
    by (simp add: conj_commute)
  have new: "\<And>h d. isRenderTimeout \<lparr>handle = h, due = d, callback = RenderTimeout c\<rparr>"
    by (simp add: isRenderTimeout_def)
  show ?thesis
    by (simp add: onDocumentChanged_eq Let_def renderTimeouts_def new conj_commute
        split: option.split)
qed

lemma onDocumentChanged_fields:
  "renders (onDocumentChanged c s) = renders s"
  "clock (onDocumentChanged c s) = clock s"
  "timerCount (onDocumentChanged c s) = (if trim c \<noteq> [] then timerCount s + 1 else timerCount s)"
  "trim c \<noteq> [] \<Longrightarrow> renderTimer (onDocumentChanged c s) = Some (timerCount s + 1)"
  by (simp_all add: onDocumentChanged_eq Let_def)

lemma debouncing_change:
  assumes "renders u = renders s" "renderVersion u = renderVersion s" "clock u = t"
    and "(case renderTimer u of None \<Rightarrow> renderTimeouts u
          | Some h \<Rightarrow> filter (\<lambda>x. handle x \<noteq> h) (renderTimeouts u)) = []"
  shows "debouncing s t c (onDocumentChanged c u)"
  using assms
  by (simp add: debouncing_def renderTimeouts_onDocumentChanged onDocumentChanged_fields)

lemma debouncing_init:
  assumes "renderTimeouts s = []" "clock s \<le> t"
  shows "debouncing s t c (onDocumentChanged c (advance t s))"
proof -
  have nd: "\<forall>x \<in> set (renderTimeouts s). t < due x" using assms(1) by simp
  note a = advance_no_render_due [OF nd]
  show ?thesis
  proof (rule debouncing_change)
    show "renders (advance t s) = renders s" by (rule a(1))
    show "renderVersion (advance t s) = renderVersion s" by (rule a(2))
    show "clock (advance t s) = t" using assms(2) by (simp add: clock_advance)
    show "(case renderTimer (advance t s) of None \<Rightarrow> renderTimeouts (advance t s)
          | Some h \<Rightarrow> filter (\<lambda>x. handle x \<noteq> h) (renderTimeouts (advance t s))) = []"
      using assms(1) by (simp add: a(3) split: option.split)
  qed
qed

lemma debouncing_step:
  assumes "debouncing s t c u" "t \<le> t'" "t' < t + 800"
  shows "debouncing s t' c' (onDocumentChanged c' (advance t' u))"
proof -
  have nd: "\<forall>x \<in> set (renderTimeouts u). t' < due x"
    using assms by (simp add: debouncing_def)
  note a = advance_no_render_due [OF nd]
  show ?thesis
  proof (rule debouncing_change)
    show "renders (advance t' u) = renders s" using assms(1) by (simp add: a(1) debouncing_def)
    show "renderVersion (advance t' u) = renderVersion s"
      using assms(1) by (simp add: a(2) debouncing_def)
    show "clock (advance t' u) = t'"
      using assms(1,2) by (simp add: clock_advance debouncing_def)
    show "(case renderTimer (advance t' u) of None \<Rightarrow> renderTimeouts (advance t' u)
          | Some h \<Rightarrow> filter (\<lambda>x. handle x \<noteq> h) (renderTimeouts (advance t' u))) = []"
      using assms(1) by (cases "trim c = []") (simp_all add: a debouncing_def split: option.split)
  qed
qed

lemma debouncing_editsAt:
  "debouncing s t c u \<Longrightarrow> rapid ((t, c) # es) \<Longrightarrow>
     debouncing s (fst (last ((t, c) # es))) (snd (last ((t, c) # es))) (editsAt es u)"
proof (induction es arbitrary: t c u)
  case Nil
  then show ?case by simp
next
  case (Cons e es)
  obtain t' c' where e: "e = (t', c')" by (cases e)
  have r: "t \<le> t'" "t' < t + 800" "rapid ((t', c') # es)"
    using Cons.prems(2) e by simp_all
  have "debouncing s t' c' (onDocumentChanged c' (advance t' u))"
    using Cons.prems(1) r(1) r(2) by (rule debouncing_step)
  then have "debouncing s (fst (last ((t', c') # es))) (snd (last ((t', c') # es)))
               (editsAt es (onDocumentChanged c' (advance t' u)))"
    using r(3) by (rule Cons.IH)
  then show ?case using e by simp
qed

lemma firing_one_render:
  assumes "\<forall>y \<in> set pre. \<not> isRenderTimeout y" "\<forall>y \<in> set post. \<not> isRenderTimeout y"
    and "callback x = RenderTimeout c"
  shows "renders (firing s (pre @ x # post))
         = renders s @ [\<lparr>version = renderVersion s + 1, isStreaming = False, code = c,
                         renderCode = c\<rparr>]"
proof -
  let ?a = "firing s pre"
  let ?b = "fire (callback x) (?a\<lparr>clock := max (clock ?a) (due x)\<rparr>)"
  note ka = firing_errorFix_keeps [OF assms(1), of s]
  have b: "renders ?b = renders s @ [\<lparr>version = renderVersion s + 1, isStreaming = False,
                                      code = c, renderCode = c\<rparr>]"
    using ka by (simp add: assms(3) doRenderStart_def newRender_def Let_def)
  have "firing s (pre @ x # post) = firing ?b post"
    by (simp add: firing_append)
  then show ?thesis
    using firing_errorFix_keeps [OF assms(2), of ?b] b by simp
qed

lemma debouncing_fire:
  assumes "debouncing s t c u" "t + 800 \<le> final"
  shows "renders (advance final u) =
       renders s @ (if trim c \<noteq> []
                    then [\<lparr>version = renderVersion s + 1, isStreaming = False, code = c,
                           renderCode = c\<rparr>]
                    else [])"
proof (cases "trim c = []")
  case True
  then have "\<forall>x \<in> set (renderTimeouts u). final < due x"
    using assms(1) by (simp add: debouncing_def)
  then have "renders (advance final u) = renders u" by (rule advance_no_render_due(1))
  then show ?thesis using assms(1) True by (simp add: debouncing_def)
next
  case False
  let ?x = "\<lparr>handle = timerCount u, due = t + 800, callback = RenderTimeout c\<rparr>"
  let ?ready = "sort_key due (filter (\<lambda>x. due x \<le> final) (timeouts u))"
  let ?u1 = "u\<lparr>timeouts := filter (\<lambda>x. \<not> due x \<le> final) (timeouts u)\<rparr>"
  have rt: "renderTimeouts u = [?x]" using assms(1) False by (simp add: debouncing_def)
  have "filter isRenderTimeout ?ready = [?x]"
    using assms(2) by (simp add: ready_renderTimeouts rt)
  then obtain pre post where sp0: "?ready = pre @ ?x # post"
      "\<forall>y \<in> set pre. \<not> isRenderTimeout y" "[] = filter isRenderTimeout post"
    unfolding filter_eq_Cons_iff by blast
  have "filter isRenderTimeout post = []" using sp0(3) by simp
  then have "\<forall>y \<in> set post. \<not> isRenderTimeout y" by (simp only: filter_empty_conv)
  note sp = sp0(1) sp0(2) this
  have "renders (firing ?u1 ?ready)
        = renders ?u1 @ [\<lparr>version = renderVersion ?u1 + 1, isStreaming = False, code = c,
                           renderCode = c\<rparr>]"
    unfolding sp(1) by (rule firing_one_render [OF sp(2) sp(3)]) simp
  then show ?thesis
    using assms(1) False by (simp add: advance_firing Let_def debouncing_def)
qed

lemma burst_debouncing:
  "renderTimeouts s = [] \<Longrightarrow> es \<noteq> [] \<Longrightarrow> rapid es \<Longrightarrow> clock s \<le> fst (hd es) \<Longrightarrow>
     debouncing s (fst (last es)) (snd (last es)) (editsAt es s)"
proof -
  assume idle: "renderTimeouts s = []" and ne: "es \<noteq> []" and r: "rapid es"
    and now: "clock s \<le> fst (hd es)"
  obtain t c es' where es: "es = (t, c) # es'" using ne by (cases es) auto
  have "debouncing s t c (onDocumentChanged c (advance t s))"
    using idle now es by (simp add: debouncing_init)
  then show ?thesis
    using debouncing_editsAt [of s t c "onDocumentChanged c (advance t s)" es'] r es by simp
qed

lemma burst_renders:
  "renderTimeouts s = [] \<Longrightarrow> es \<noteq> [] \<Longrightarrow> rapid es \<Longrightarrow> clock s \<le> fst (hd es) \<Longrightarrow>
   fst (last es) + 800 \<le> final \<Longrightarrow>
     renders (burst es final s) =
       renders s @ (if trim (snd (last es)) \<noteq> []
                    then [\<lparr>version = renderVersion s + 1, isStreaming = False,
                           code = snd (last es), renderCode = snd (last es)\<rparr>]
                    else [])"
  unfolding burst_def using burst_debouncing debouncing_fire by blast

lemma streaming_initialApp [simp]: "\<not> streaming initialApp"
  by (simp add: initialApp_def)

lemma streaming_fire [simp]: "streaming (fire cb s) = streaming s"
  by (cases cb) (simp_all add: doRenderStart_def Let_def errorFixCallback_def)

lemma streaming_firing [simp]: "streaming (firing s xs) = streaming s"
  by (induction xs arbitrary: s) simp_all

lemma streaming_advance [simp]: "streaming (advance t s) = streaming s"
  by (simp add: advance_firing Let_def)

lemma streaming_onDocumentChanged [simp]: "streaming (onDocumentChanged c s) = streaming s"
  by (simp add: onDocumentChanged_eq Let_def)

lemma streaming_editsAt [simp]: "streaming (editsAt es s) = streaming s"
proof (induction es arbitrary: s)
  case Nil
  show ?case by simp
next
  case (Cons e es)
  obtain t c where e: "e = (t, c)" by (cases e)
  have "streaming (editsAt es (onDocumentChanged c (advance t s)))
        = streaming (onDocumentChanged c (advance t s))"
    by (rule Cons.IH)
  then show ?case by (simp add: e)
qed

text \<open>
  Claim C3, as the code has it. While no streaming session is active and from a state
  with no render timeout pending, a burst of document changes less than 800 ms apart
  issues exactly one render once 800 ms have passed after the last change, a
  non-streaming one with the text of the last change, provided that text is not blank;
  when the last change leaves the document blank no render is issued. Each change cancels
  the pending timeout before it sets the new one, so that after the burst the only render
  timeout pending is the one for the last text. No streaming session starts in the burst.
\<close>

theorem debounce_coalesces_burst:
  "\<not> streaming s \<Longrightarrow> renderTimeouts s = [] \<Longrightarrow> es \<noteq> [] \<Longrightarrow> rapid es \<Longrightarrow>
   clock s \<le> fst (hd es) \<Longrightarrow> fst (last es) + 800 \<le> final \<Longrightarrow>
     renders (burst es final s) =
       renders s @ (if trim (snd (last es)) \<noteq> []
                    then [\<lparr>version = renderVersion s + 1, isStreaming = False,
                           code = snd (last es), renderCode = snd (last es)\<rparr>]
                    else [])
     \<and> renderTimeouts (editsAt es s) =
         (if trim (snd (last es)) \<noteq> []
          then [\<lparr>handle = timerCount (editsAt es s), due = fst (last es) + 800,
                 callback = RenderTimeout (snd (last es))\<rparr>]
          else [])
     \<and> \<not> streaming (burst es final s)"
proof -
  assume quiet: "\<not> streaming s"
    and idle: "renderTimeouts s = []" and ne: "es \<noteq> []" and r: "rapid es"
    and now: "clock s \<le> fst (hd es)" and f: "fst (last es) + 800 \<le> final"
  have "debouncing s (fst (last es)) (snd (last es)) (editsAt es s)"
    using idle ne r now by (rule burst_debouncing)
  then have "renderTimeouts (editsAt es s) =
         (if trim (snd (last es)) \<noteq> []
          then [\<lparr>handle = timerCount (editsAt es s), due = fst (last es) + 800,
                 callback = RenderTimeout (snd (last es))\<rparr>]
          else [])"
    by (simp add: debouncing_def)
  moreover have "\<not> streaming (burst es final s)"
    using quiet by (simp add: burst_def)
  ultimately show ?thesis
    using burst_renders [OF idle ne r now f] by simp
qed

theorem debounce_coalesces_burst_witness:
  "\<not> streaming initialApp \<and> renderTimeouts initialApp = []
   \<and> rapid [(0, js ''a''), (300, js ''ab''), (700, js ''abc'')]
   \<and> renders (burst [(0, js ''a''), (300, js ''ab''), (700, js ''abc'')] 1500 initialApp)
       = [\<lparr>version = 1, isStreaming = False, code = js ''abc'', renderCode = js ''abc''\<rparr>]"
  using debounce_coalesces_burst
          [of initialApp "[(0, js ''a''), (300, js ''ab''), (700, js ''abc'')]" 1500]
  by (simp add: renderTimeouts_def trim_def trimEnd_def trimStart_def js_def isSpace_def)

text \<open>
  The claim as stated fails when the last edit of the burst leaves the document empty:
  the cleanup cancels the pending timeout, the effect sets no new one, and no render is
  issued.
\<close>

theorem debounce_blank_text_counterexample:
  "\<not> streaming initialApp \<and> rapid [(0, js ''a''), (300, [])]
   \<and> renders (burst [(0, js ''a''), (300, [])] 5000 initialApp) = []"
  using burst_renders [of initialApp "[(0, js ''a''), (300, [])]" 5000]
  by (simp add: renderTimeouts_def trim_def trimEnd_def trimStart_def)

section \<open>Properties of the selection\<close>

text \<open>
  Claim C6, as the code has it. Leaving selection mode empties the selection; entering
  it leaves the selection as it is. The tool-input handler replaces the document and
  clears the change log, and leaves the selection as it was.
\<close>

theorem selection_cleared_on_exit_only:
  "(selectionMode s \<longrightarrow>
      selectedElements (toggleSelectionMode s) = [] \<and> \<not> selectionMode (toggleSelectionMode s))
   \<and> (\<not> selectionMode s \<longrightarrow>
      selectedElements (toggleSelectionMode s) = selectedElements s
      \<and> selectionMode (toggleSelectionMode s))
   \<and> selectedElements (ontoolinput arg s) = selectedElements s
   \<and> plantUmlCode (ontoolinput (Some c) s) = c
   \<and> changeLog (ontoolinput arg s) = []"
  by (simp add: toggleSelectionMode_def ontoolinput_def clear_def)

theorem selection_cleared_on_exit_only_witness:
  "selectionMode (initialApp\<lparr>selectionMode := True, selectedElements := [js ''Alice'']\<rparr>)
   \<and> selectedElements
        (toggleSelectionMode (initialApp\<lparr>selectionMode := True, selectedElements := [js ''Alice'']\<rparr>))
       = []"
  using selection_cleared_on_exit_only
          [of "initialApp\<lparr>selectionMode := True, selectedElements := [js ''Alice'']\<rparr>"]
  by simp

text \<open>
  The claim as stated fails for the tool input: an element selected before the handler
  runs is still selected after it.
\<close>

theorem tool_input_keeps_selection_counterexample:
  "selectedElements (ontoolinput (Some (js ''@startuml''))
      (initialApp\<lparr>selectedElements := [js ''Alice'']\<rparr>)) \<noteq> []"
  by (simp add: ontoolinput_def)


end
